theory Spec2Isabelle
  imports Complex_Main
begin

section \<open>Python primitives used by generate\_spheres.py\<close>

text \<open>
  The script computes in binary64 floating point.  The embedding idealises a float as a
  real number and every arithmetic operation as the exact one; the operations of the
  source that can raise are modelled with their error branch.  The geometric test of the
  kernel (\<open>dist_sq > RADIUS * RADIUS\<close>) only meets half-integers below 64, their squares
  and sums of two such squares, all of which binary64 represents exactly, so that test is
  the same in both readings.
\<close>

datatype error = ValueError | ZeroDivisionError | OverflowError | IndexError

definition ebind :: "error + 'a \<Rightarrow> ('a \<Rightarrow> error + 'b) \<Rightarrow> error + 'b" where
  "ebind m f = (case m of Inl e \<Rightarrow> Inl e | Inr v \<Rightarrow> f v)"

text \<open>A magnitude from which rounding to binary64 gives an infinity.\<close>

definition float_overflow :: "real \<Rightarrow> bool" where
  "float_overflow v = (2 ^ 1024 - 2 ^ 970 \<le> \<bar>v\<bar>)"

text \<open>\<open>math.sqrt\<close> raises ValueError on a negative argument.\<close>

definition math_sqrt :: "real \<Rightarrow> error + real" where
  "math_sqrt v = (if v < 0 then Inl ValueError else Inr (sqrt v))"

text \<open>Float division raises ZeroDivisionError on a zero divisor.\<close>

definition float_div :: "real \<Rightarrow> real \<Rightarrow> error + real" where
  "float_div a b = (if b = 0 then Inl ZeroDivisionError else Inr (a / b))"

text \<open>\<open>float ** int\<close> raises OverflowError when the result is out of range.\<close>

definition float_pow :: "real \<Rightarrow> nat \<Rightarrow> error + real" where
  "float_pow a n = (if float_overflow (a ^ n) then Inl OverflowError else Inr (a ^ n))"

text \<open>
  \<open>int * float\<close> first converts the integer, which raises OverflowError when it is too
  large for a float.
\<close>

definition int_times_float :: "int \<Rightarrow> real \<Rightarrow> error + real" where
  "int_times_float n v =
     (if float_overflow (real_of_int n) then Inl OverflowError else Inr (real_of_int n * v))"

text \<open>\<open>int(float)\<close> truncates toward zero; it raises OverflowError on an infinity.\<close>

definition trunc :: "real \<Rightarrow> int" where
  "trunc v = (if 0 \<le> v then \<lfloor>v\<rfloor> else \<lceil>v\<rceil>)"

definition float_to_int :: "real \<Rightarrow> error + int" where
  "float_to_int v = (if float_overflow v then Inl OverflowError else Inr (trunc v))"

section \<open>Configuration\<close>

definition IMG_SIZE :: nat where "IMG_SIZE = 128"
definition RADIUS :: real where "RADIUS = 60"
definition CENTER :: real where "CENTER = 63.5"

text \<open>The light direction \<open>(-0.5, -0.5, 0.8)\<close>, normalised at module level.\<close>

definition len_l :: real where
  "len_l = sqrt ((-0.5) * (-0.5) + (-0.5) * (-0.5) + 0.8 * 0.8)"

definition LX :: real where "LX = (-0.5) / len_l"
definition LY :: real where "LY = (-0.5) / len_l"
definition LZ :: real where "LZ = 0.8 / len_l"

section \<open>The pixel buffer\<close>

type_synonym pixel = "int \<times> int \<times> int \<times> int"

record image =
  width :: nat
  height :: nat
  pixels :: "nat \<times> nat \<Rightarrow> pixel"

definition Image_new :: "nat \<Rightarrow> nat \<Rightarrow> pixel \<Rightarrow> image" where
  "Image_new w h fill = \<lparr>width = w, height = h, pixels = (\<lambda>_. fill)\<rparr>"

text \<open>Pixel access outside the image raises IndexError.\<close>

definition putpixel :: "image \<Rightarrow> nat \<Rightarrow> nat \<Rightarrow> pixel \<Rightarrow> error + image" where
  "putpixel img x y p =
     (if x < width img \<and> y < height img
      then Inr (img\<lparr>pixels := (pixels img)((x, y) := p)\<rparr>)
      else Inl IndexError)"

definition getpixel :: "image \<Rightarrow> nat \<Rightarrow> nat \<Rightarrow> error + pixel" where
  "getpixel img x y =
     (if x < width img \<and> y < height img then Inr (pixels img (x, y)) else Inl IndexError)"

section \<open>generate\_sphere\<close>

text \<open>
  The body of the two nested loops for one coordinate: \<open>Inr None\<close> is the
  \<open>continue\<close> of an off-sphere pixel, \<open>Inr (Some p)\<close> the tuple written to
  \<open>pixels[x, y]\<close>.
\<close>

definition shade_pixel :: "int \<times> int \<times> int \<Rightarrow> nat \<Rightarrow> nat \<Rightarrow> error + pixel option" where
  "shade_pixel rgb x y =
     (case rgb of (r_base, g_base, b_base) \<Rightarrow>
      let dx = real x - CENTER;
          dy = real y - CENTER;
          dist_sq = dx * dx + dy * dy
      in if dist_sq > RADIUS * RADIUS then Inr None
         else
           ebind (math_sqrt (RADIUS * RADIUS - dist_sq)) (\<lambda>z.
           ebind (float_div dx RADIUS) (\<lambda>nx.
           ebind (float_div dy RADIUS) (\<lambda>ny.
           ebind (float_div z RADIUS) (\<lambda>nz.
           let diffuse = max 0 (nx * LX + ny * LY + nz * LZ) in
           ebind (if diffuse > 0
                  then (let rz = 2 * diffuse * nz - LZ
                        in if rz > 0 then float_pow rz 20 else Inr 0)
                  else Inr 0) (\<lambda>specular.
           let ambient = 0.3;
               light_intensity = ambient + (diffuse * 0.7)
           in
           ebind (int_times_float r_base light_intensity) (\<lambda>rl.
           ebind (float_to_int (rl + specular * 255 * 0.4)) (\<lambda>r.
           ebind (int_times_float g_base light_intensity) (\<lambda>gl.
           ebind (float_to_int (gl + specular * 255 * 0.4)) (\<lambda>g.
           ebind (int_times_float b_base light_intensity) (\<lambda>bl.
           ebind (float_to_int (bl + specular * 255 * 0.4)) (\<lambda>b.
           let r' = min 255 (max 0 r);
               g' = min 255 (max 0 g);
               b' = min 255 (max 0 b)
           in
           ebind (math_sqrt dist_sq) (\<lambda>s.
           let edge_dist = RADIUS - s in
           ebind (if edge_dist < 1.0 then float_to_int (255 * edge_dist) else Inr 255) (\<lambda>alpha.
           Inr (Some (r', g', b', alpha))))))))))))))))"

text \<open>The inner loop over \<open>x\<close> and the outer loop over \<open>y\<close>.\<close>

fun row_loop :: "int \<times> int \<times> int \<Rightarrow> nat \<Rightarrow> nat list \<Rightarrow> image \<Rightarrow> error + image" where
  "row_loop rgb y [] img = Inr img"
| "row_loop rgb y (x # xs) img =
     (case shade_pixel rgb x y of
        Inl e \<Rightarrow> Inl e
      | Inr None \<Rightarrow> row_loop rgb y xs img
      | Inr (Some p) \<Rightarrow> ebind (putpixel img x y p) (row_loop rgb y xs))"

fun col_loop :: "int \<times> int \<times> int \<Rightarrow> nat list \<Rightarrow> image \<Rightarrow> error + image" where
  "col_loop rgb [] img = Inr img"
| "col_loop rgb (y # ys) img =
     ebind (row_loop rgb y [0..<IMG_SIZE] img) (col_loop rgb ys)"

definition generate_sphere :: "int \<times> int \<times> int \<Rightarrow> error + image" where
  "generate_sphere rgb =
     col_loop rgb [0..<IMG_SIZE] (Image_new IMG_SIZE IMG_SIZE (0, 0, 0, 0))"

section \<open>hex\_to\_rgb\<close>

text \<open>
  Strings are lists of code points below 256.  \<open>str.lstrip('#')\<close> removes every leading
  \<open>#\<close>, and \<open>s[i:j]\<close> is the slice between two offsets, shorter when the string
  ends early.
\<close>

definition lstrip :: "char \<Rightarrow> string \<Rightarrow> string" where
  "lstrip c s = dropWhile (\<lambda>d. d = c) s"

definition slice :: "nat \<Rightarrow> nat \<Rightarrow> string \<Rightarrow> string" where
  "slice i j s = take (j - i) (drop i s)"

text \<open>
  \<open>int(s, 16)\<close>: surrounding whitespace, one optional sign, an optional \<open>0x\<close> prefix
  (which one underscore may follow), then hexadecimal digits separated by single
  underscores.  Anything else raises ValueError.
\<close>

definition is_space :: "char \<Rightarrow> bool" where
  "is_space c = (of_char c \<in> {9, 10, 11, 12, 13, 32, 133, 160 :: nat})"

definition digit_value :: "char \<Rightarrow> nat option" where
  "digit_value c =
     (let n = of_char c :: nat
      in if 48 \<le> n \<and> n \<le> 57 then Some (n - 48)
         else if 97 \<le> n \<and> n \<le> 102 then Some (n - 87)
         else if 65 \<le> n \<and> n \<le> 70 then Some (n - 55)
         else None)"

text \<open>
  The digit scan: \<open>prev\<close> is the character before the current one, \<open>acc\<close> the value
  and \<open>digits\<close> the number of digits read so far.  A doubled or trailing underscore is
  a syntax error (\<open>None\<close>); otherwise the scan stops at the first character that is
  neither and returns the rest of the string.
\<close>

fun scan_digits :: "string \<Rightarrow> char \<Rightarrow> nat \<Rightarrow> nat \<Rightarrow> (string \<times> nat \<times> nat) option" where
  "scan_digits [] prev acc digits =
     (if prev = CHR ''_'' then None else Some ([], acc, digits))"
| "scan_digits (c # cs) prev acc digits =
     (if c = CHR ''_''
      then (if prev = CHR ''_'' then None else scan_digits cs c acc digits)
      else (case digit_value c of
              Some d \<Rightarrow> scan_digits cs c (acc * 16 + d) (digits + 1)
            | None \<Rightarrow> (if prev = CHR ''_'' then None else Some (c # cs, acc, digits))))"

definition skip_sign :: "string \<Rightarrow> int \<times> string" where
  "skip_sign s =
     (case s of
        [] \<Rightarrow> (1, s)
      | c # cs \<Rightarrow> if c = CHR ''+'' then (1, cs) else if c = CHR ''-'' then (- 1, cs) else (1, s))"

definition skip_prefix :: "string \<Rightarrow> string" where
  "skip_prefix s =
     (case s of
        a # b # cs \<Rightarrow>
          if a = CHR ''0'' \<and> (b = CHR ''x'' \<or> b = CHR ''X'')
          then (case cs of [] \<Rightarrow> cs | u # cs' \<Rightarrow> if u = CHR ''_'' then cs' else cs)
          else s
      | _ \<Rightarrow> s)"

definition int16 :: "string \<Rightarrow> error + int" where
  "int16 s =
     (case skip_sign (dropWhile is_space s) of (sign, s2) \<Rightarrow>
      (case skip_prefix s2 of
         [] \<Rightarrow> Inl ValueError
       | c # cs \<Rightarrow>
           if c = CHR ''_'' then Inl ValueError
           else (case scan_digits (c # cs) (CHR 0x00) 0 0 of
                   None \<Rightarrow> Inl ValueError
                 | Some (rest, v, digits) \<Rightarrow>
                     if digits = 0 then Inl ValueError
                     else if dropWhile is_space rest = [] then Inr (sign * int v)
                     else Inl ValueError)))"

definition hex_to_rgb :: "string \<Rightarrow> error + int \<times> int \<times> int" where
  "hex_to_rgb hex_str0 =
     (let hex_str = lstrip (CHR ''#'') hex_str0
      in ebind (int16 (slice 0 2 hex_str)) (\<lambda>r.
         ebind (int16 (slice 2 4 hex_str)) (\<lambda>g.
         ebind (int16 (slice 4 6 hex_str)) (\<lambda>b.
         Inr (r, g, b)))))"

section \<open>main\<close>

text \<open>
  An entry of the colour list, as \<open>main\<close> reads it: \<open>entry.get('itemID')\<close> and
  \<open>entry.get('hex')\<close>, \<open>None\<close> when the key is missing or null.  The run keeps the
  counter, the files written (one per identifier, a later write replacing an earlier
  one) and the messages printed inside the loop.  The colour list is taken as read and
  \<open>img.save\<close> as succeeding; an exception of \<open>hex_to_rgb\<close> or
  \<open>generate_sphere\<close> is caught by the loop's \<open>except\<close> and reported.
\<close>

record entry =
  item_id :: "int option"
  hex_color :: "string option"

datatype message = Generated nat | Failed int error

record run =
  count :: nat
  files :: "int \<rightharpoonup> image"
  printed :: "message list"

definition process_entry :: "entry \<Rightarrow> run \<Rightarrow> run" where
  "process_entry e st =
     (case item_id e of
        None \<Rightarrow> st
      | Some i \<Rightarrow>
          (case hex_color e of
             None \<Rightarrow> st
           | Some h \<Rightarrow>
               if h = [] then st
               else (case ebind (hex_to_rgb h) generate_sphere of
                       Inl err \<Rightarrow> st\<lparr>printed := printed st @ [Failed i err]\<rparr>
                     | Inr img \<Rightarrow>
                         let c = count st + 1
                         in st\<lparr>count := c,
                               files := (files st)(i \<mapsto> img),
                               printed := printed st @ (if c mod 50 = 0 then [Generated c] else [])\<rparr>)))"

definition main_loop :: "entry list \<Rightarrow> run \<Rightarrow> run" where
  "main_loop data st = fold process_entry data st"

definition main :: "entry list \<Rightarrow> run" where
  "main data = main_loop data \<lparr>count = 0, files = Map.empty, printed = []\<rparr>"

section \<open>The values the kernel computes at a coordinate\<close>

text \<open>
  The intermediate values of the loop body, named as in the source and written as
  functions of the coordinate, for the pixels that pass the distance test.
\<close>

definition dist_sq :: "nat \<Rightarrow> nat \<Rightarrow> real" where
  "dist_sq x y =
     (real x - CENTER) * (real x - CENTER) + (real y - CENTER) * (real y - CENTER)"

definition on_sphere :: "nat \<Rightarrow> nat \<Rightarrow> bool" where
  "on_sphere x y = (\<not> dist_sq x y > RADIUS * RADIUS)"

definition nz_at :: "nat \<Rightarrow> nat \<Rightarrow> real" where
  "nz_at x y = sqrt (RADIUS * RADIUS - dist_sq x y) / RADIUS"

definition diffuse_at :: "nat \<Rightarrow> nat \<Rightarrow> real" where
  "diffuse_at x y =
     max 0 ((real x - CENTER) / RADIUS * LX + (real y - CENTER) / RADIUS * LY + nz_at x y * LZ)"

definition rz_at :: "nat \<Rightarrow> nat \<Rightarrow> real" where
  "rz_at x y = 2 * diffuse_at x y * nz_at x y - LZ"

definition specular_at :: "nat \<Rightarrow> nat \<Rightarrow> real" where
  "specular_at x y =
     (if diffuse_at x y > 0 then (if rz_at x y > 0 then rz_at x y ^ 20 else 0) else 0)"

definition light_intensity_at :: "nat \<Rightarrow> nat \<Rightarrow> real" where
  "light_intensity_at x y = 0.3 + (diffuse_at x y * 0.7)"

definition channel_value :: "int \<Rightarrow> nat \<Rightarrow> nat \<Rightarrow> real" where
  "channel_value base x y =
     real_of_int base * light_intensity_at x y + specular_at x y * 255 * 0.4"

definition channel_at :: "int \<Rightarrow> nat \<Rightarrow> nat \<Rightarrow> int" where
  "channel_at base x y = min 255 (max 0 (trunc (channel_value base x y)))"

definition edge_dist_at :: "nat \<Rightarrow> nat \<Rightarrow> real" where
  "edge_dist_at x y = RADIUS - sqrt (dist_sq x y)"

definition alpha_at :: "nat \<Rightarrow> nat \<Rightarrow> int" where
  "alpha_at x y = (if edge_dist_at x y < 1.0 then trunc (255 * edge_dist_at x y) else 255)"

definition lit_pixel :: "int \<times> int \<times> int \<Rightarrow> nat \<Rightarrow> nat \<Rightarrow> pixel" where
  "lit_pixel rgb x y =
     (case rgb of (r_base, g_base, b_base) \<Rightarrow>
        (channel_at r_base x y, channel_at g_base x y, channel_at b_base x y, alpha_at x y))"

text \<open>The image the two loops leave behind, pixel by pixel.\<close>

definition rendered :: "int \<times> int \<times> int \<Rightarrow> image" where
  "rendered rgb =
     \<lparr>width = IMG_SIZE, height = IMG_SIZE,
      pixels = (\<lambda>(x, y). if x < IMG_SIZE \<and> y < IMG_SIZE \<and> on_sphere x y
                          then lit_pixel rgb x y else (0, 0, 0, 0))\<rparr>"

text \<open>Colours: the channels of a valid colour, and the range no operation overflows on.\<close>

definition valid_color :: "int \<times> int \<times> int \<Rightarrow> bool" where
  "valid_color rgb =
     (case rgb of (r, g, b) \<Rightarrow> 0 \<le> r \<and> r \<le> 255 \<and> 0 \<le> g \<and> g \<le> 255 \<and> 0 \<le> b \<and> b \<le> 255)"

definition small_color :: "int \<times> int \<times> int \<Rightarrow> bool" where
  "small_color rgb = (case rgb of (r, g, b) \<Rightarrow> \<bar>r\<bar> \<le> 255 \<and> \<bar>g\<bar> \<le> 255 \<and> \<bar>b\<bar> \<le> 255)"

definition red :: "pixel \<Rightarrow> int" where "red p = fst p"
definition green :: "pixel \<Rightarrow> int" where "green p = fst (snd p)"
definition blue :: "pixel \<Rightarrow> int" where "blue p = fst (snd (snd p))"
definition alpha :: "pixel \<Rightarrow> int" where "alpha p = snd (snd (snd p))"

text \<open>Reading one pixel of the image \<open>generate_sphere\<close> returns.\<close>

definition render_pixel :: "int \<times> int \<times> int \<Rightarrow> nat \<Rightarrow> nat \<Rightarrow> error + pixel" where
  "render_pixel rgb x y = ebind (generate_sphere rgb) (\<lambda>img. getpixel img x y)"

text \<open>The alpha band of that pixel.\<close>

definition rendered_alpha :: "int \<times> int \<times> int \<Rightarrow> nat \<Rightarrow> nat \<Rightarrow> error + int" where
  "rendered_alpha rgb x y = ebind (render_pixel rgb x y) (\<lambda>p. Inr (alpha p))"

section \<open>The specification's formulas\<close>

text \<open>
  The quantities below follow the words of the specification, not the source: the planar
  distance from the centre \<open>(63.5, 63.5)\<close>, the unit normal, the normalised light, the
  diffuse and specular terms, the clamp, and the channel formula.
\<close>

definition spec_planar_distance :: "nat \<Rightarrow> nat \<Rightarrow> real" where
  "spec_planar_distance x y = sqrt ((real x - 63.5)\<^sup>2 + (real y - 63.5)\<^sup>2)"

definition spec_dot :: "real \<times> real \<times> real \<Rightarrow> real \<times> real \<times> real \<Rightarrow> real" where
  "spec_dot u v =
     (case u of (ux, uy, uz) \<Rightarrow> case v of (vx, vy, vz) \<Rightarrow> ux * vx + uy * vy + uz * vz)"

definition spec_z :: "real \<times> real \<times> real \<Rightarrow> real" where
  "spec_z u = snd (snd u)"

definition spec_light :: "real \<times> real \<times> real" where
  "spec_light =
     (let n = sqrt ((- 0.5)\<^sup>2 + (- 0.5)\<^sup>2 + 0.8\<^sup>2) in (- 0.5 / n, - 0.5 / n, 0.8 / n))"

definition spec_normal :: "nat \<Rightarrow> nat \<Rightarrow> real \<times> real \<times> real" where
  "spec_normal x y =
     (let dx = real x - 63.5;
          dy = real y - 63.5;
          z = sqrt (60\<^sup>2 - (dx\<^sup>2 + dy\<^sup>2))
      in (dx / 60, dy / 60, z / 60))"

definition spec_diffuse :: "nat \<Rightarrow> nat \<Rightarrow> real" where
  "spec_diffuse x y = max 0 (spec_dot (spec_normal x y) spec_light)"

definition spec_Rz :: "nat \<Rightarrow> nat \<Rightarrow> real" where
  "spec_Rz x y = 2 * spec_diffuse x y * spec_z (spec_normal x y) - spec_z spec_light"

definition spec_specular :: "nat \<Rightarrow> nat \<Rightarrow> real" where
  "spec_specular x y =
     (if spec_diffuse x y > 0 \<and> spec_Rz x y > 0 then spec_Rz x y ^ 20 else 0)"

definition spec_clamp :: "int \<Rightarrow> int \<Rightarrow> int \<Rightarrow> int" where
  "spec_clamp v lo hi = (if v < lo then lo else if hi < v then hi else v)"

definition spec_channel_value :: "int \<Rightarrow> nat \<Rightarrow> nat \<Rightarrow> real" where
  "spec_channel_value base x y =
     real_of_int base * (0.3 + 0.7 * spec_diffuse x y) + spec_specular x y * 255 * 0.4"

definition spec_channel :: "int \<Rightarrow> nat \<Rightarrow> nat \<Rightarrow> int" where
  "spec_channel base x y = spec_clamp (trunc (spec_channel_value base x y)) 0 255"

text \<open>
  An integer is a real truncated toward zero when it lies between zero and the real,
  less than one away from it.
\<close>

definition spec_truncates :: "int \<Rightarrow> real \<Rightarrow> bool" where
  "spec_truncates t v =
     (\<bar>real_of_int t\<bar> \<le> \<bar>v\<bar> \<and> \<bar>v\<bar> < \<bar>real_of_int t\<bar> + 1 \<and> 0 \<le> real_of_int t * v)"

text \<open>The inward distance from the silhouette and the alpha the specification's step 9 words.\<close>

definition spec_edge_dist :: "nat \<Rightarrow> nat \<Rightarrow> real" where
  "spec_edge_dist x y = 60 - sqrt ((real x - 63.5)\<^sup>2 + (real y - 63.5)\<^sup>2)"

definition spec_rounded_alpha :: "nat \<Rightarrow> nat \<Rightarrow> int" where
  "spec_rounded_alpha x y =
     (if spec_edge_dist x y < 1 then round (255 * spec_edge_dist x y) else 255)"

text \<open>
  The computed shading of a pixel: the three channels of the specification's colour
  composition and its edge alpha, converted to integers by truncation as its numeric
  semantics say.
\<close>

definition spec_shading :: "int \<times> int \<times> int \<Rightarrow> nat \<Rightarrow> nat \<Rightarrow> pixel" where
  "spec_shading rgb x y =
     (case rgb of (r, g, b) \<Rightarrow>
        (spec_channel r x y, spec_channel g x y, spec_channel b x y,
         if spec_edge_dist x y < 1 then \<lfloor>255 * spec_edge_dist x y\<rfloor> else 255))"

text \<open>
  The combined intensity before the specular term: the three channels computed from the
  base colour and the light intensity alone.
\<close>

definition spec_pre_specular :: "int \<times> int \<times> int \<Rightarrow> nat \<Rightarrow> nat \<Rightarrow> int" where
  "spec_pre_specular rgb x y =
     (case rgb of (r, g, b) \<Rightarrow>
        spec_clamp (trunc (real_of_int r * (0.3 + 0.7 * spec_diffuse x y))) 0 255
      + spec_clamp (trunc (real_of_int g * (0.3 + 0.7 * spec_diffuse x y))) 0 255
      + spec_clamp (trunc (real_of_int b * (0.3 + 0.7 * spec_diffuse x y))) 0 255)"

text \<open>
  The colour strings of the data model: an optional leading \<open>#\<close>, then exactly six
  hexadecimal digits.
\<close>

definition spec_hex_digit :: "char \<Rightarrow> bool" where
  "spec_hex_digit c = (c \<in> set ''0123456789abcdefABCDEF'')"

definition spec_color_string :: "string \<Rightarrow> bool" where
  "spec_color_string s =
     (let t = (case s of [] \<Rightarrow> s | c # cs \<Rightarrow> if c = CHR ''#'' then cs else s)
      in length t = 6 \<and> list_all spec_hex_digit t)"

text \<open>Two runs that agree on what they produced: the counter and the files.\<close>

definition same_products :: "run \<Rightarrow> run \<Rightarrow> bool" where
  "same_products s t = (count s = count t \<and> files s = files t)"

section \<open>Bounds and closed forms\<close>

lemma len_l_ge1: "1 \<le> len_l"
  unfolding len_l_def by (rule real_le_rsqrt) simp

lemma L_bounds: "\<bar>LX\<bar> \<le> 1" "\<bar>LY\<bar> \<le> 1" "\<bar>LZ\<bar> \<le> 1" "0 < LZ"
  using len_l_ge1 by (simp_all add: LX_def LY_def LZ_def abs_if field_simps)

lemma dist_sq_nonneg: "0 \<le> dist_sq x y"
  by (simp add: dist_sq_def)

lemma nz_bounds: "on_sphere x y \<Longrightarrow> 0 \<le> nz_at x y \<and> nz_at x y \<le> 1"
proof -
  assume "on_sphere x y"
  then have a: "0 \<le> RADIUS * RADIUS - dist_sq x y" by (simp add: on_sphere_def)
  have "sqrt (RADIUS * RADIUS - dist_sq x y) \<le> 60"
    by (rule real_le_lsqrt) (use a dist_sq_nonneg[of x y] in \<open>simp_all add: RADIUS_def\<close>)
  then show ?thesis using a by (simp add: nz_at_def RADIUS_def)
qed

lemma sq_abs_le: "a * a + b * b \<le> 60 * 60 \<Longrightarrow> \<bar>a :: real\<bar> \<le> 60"
proof -
  assume h: "a * a + b * b \<le> 60 * 60"
  have "0 \<le> b * b" by simp
  with h have "a * a \<le> 60 * 60" by linarith
  then have "a\<^sup>2 \<le> 60\<^sup>2" by (simp add: power2_eq_square)
  then show ?thesis using abs_le_square_iff[of a 60] by simp
qed

lemma dx_bound: "on_sphere x y \<Longrightarrow> \<bar>(real x - CENTER) / RADIUS\<bar> \<le> 1"
proof -
  assume "on_sphere x y"
  then have "(real x - CENTER) * (real x - CENTER) + (real y - CENTER) * (real y - CENTER) \<le> 60 * 60"
    by (simp add: on_sphere_def dist_sq_def RADIUS_def)
  then have "\<bar>real x - CENTER\<bar> \<le> 60" by (rule sq_abs_le)
  then show ?thesis by (simp add: RADIUS_def)
qed

lemma dy_bound: "on_sphere x y \<Longrightarrow> \<bar>(real y - CENTER) / RADIUS\<bar> \<le> 1"
proof -
  assume "on_sphere x y"
  then have "(real y - CENTER) * (real y - CENTER) + (real x - CENTER) * (real x - CENTER) \<le> 60 * 60"
    by (simp add: on_sphere_def dist_sq_def RADIUS_def)
  then have "\<bar>real y - CENTER\<bar> \<le> 60" by (rule sq_abs_le)
  then show ?thesis by (simp add: RADIUS_def)
qed

lemma abs_mult_le1: "\<bar>a\<bar> \<le> 1 \<Longrightarrow> \<bar>b\<bar> \<le> 1 \<Longrightarrow> \<bar>a * b :: real\<bar> \<le> 1"
  using mult_mono[of "\<bar>a\<bar>" 1 "\<bar>b\<bar>" 1] by (simp add: abs_mult)

lemma diffuse_bounds: "on_sphere x y \<Longrightarrow> 0 \<le> diffuse_at x y \<and> diffuse_at x y \<le> 3"
proof -
  assume on: "on_sphere x y"
  have a: "\<bar>(real x - CENTER) / RADIUS * LX\<bar> \<le> 1"
    by (rule abs_mult_le1[OF dx_bound[OF on] L_bounds(1)])
  have b: "\<bar>(real y - CENTER) / RADIUS * LY\<bar> \<le> 1"
    by (rule abs_mult_le1[OF dy_bound[OF on] L_bounds(2)])
  have "\<bar>nz_at x y\<bar> \<le> 1" using nz_bounds[OF on] by simp
  then have c: "\<bar>nz_at x y * LZ\<bar> \<le> 1" by (rule abs_mult_le1[OF _ L_bounds(3)])
  have s: "(real x - CENTER) / RADIUS * LX + (real y - CENTER) / RADIUS * LY + nz_at x y * LZ \<le> 3"
    using a b c by linarith
  show ?thesis unfolding diffuse_at_def using s by (simp only: max.bounded_iff max.cobounded1) simp
qed

lemma rz_bound: "on_sphere x y \<Longrightarrow> rz_at x y \<le> 7"
proof -
  assume on: "on_sphere x y"
  have "diffuse_at x y * nz_at x y \<le> 3 * 1"
    using diffuse_bounds[OF on] nz_bounds[OF on] by (intro mult_mono) simp_all
  then show ?thesis using L_bounds(3) by (simp add: rz_at_def)
qed

lemma specular_bounds: "on_sphere x y \<Longrightarrow> 0 \<le> specular_at x y \<and> specular_at x y \<le> 7 ^ 20"
proof -
  assume on: "on_sphere x y"
  show ?thesis
  proof (cases "diffuse_at x y > 0 \<and> rz_at x y > 0")
    case True
    then have "rz_at x y ^ 20 \<le> 7 ^ 20"
      using rz_bound[OF on] by (intro power_mono) simp_all
    then show ?thesis using True by (simp add: specular_at_def)
  next
    case False
    then show ?thesis by (auto simp add: specular_at_def)
  qed
qed

lemma light_intensity_bounds:
  "on_sphere x y \<Longrightarrow> 0.3 \<le> light_intensity_at x y \<and> light_intensity_at x y \<le> 2.4"
  using diffuse_bounds[of x y] by (simp add: light_intensity_at_def)

lemma channel_value_bound:
  assumes on: "on_sphere x y" and b: "\<bar>base\<bar> \<le> 255"
  shows "\<bar>channel_value base x y\<bar> \<le> 612 + 102 * 7 ^ 20"
proof -
  have "\<bar>real_of_int base * light_intensity_at x y\<bar> \<le> 255 * 2.4"
    unfolding abs_mult using b light_intensity_bounds[OF on]
    by (intro mult_mono) simp_all
  moreover have "\<bar>specular_at x y * 255 * 0.4\<bar> \<le> 102 * 7 ^ 20"
    using specular_bounds[OF on] by simp
  ultimately show ?thesis by (simp add: channel_value_def)
qed

lemma no_overflow_small: "\<bar>v\<bar> \<le> 612 + 102 * 7 ^ 20 \<Longrightarrow> \<not> float_overflow v"
  by (simp add: float_overflow_def)

lemma ebind_Inr [simp]: "ebind (Inr v) f = f v"
  by (simp add: ebind_def)

lemma ebind_Inl [simp]: "ebind (Inl e) f = Inl e"
  by (simp add: ebind_def)

lemma shade_pixel_off: "\<not> on_sphere x y \<Longrightarrow> shade_pixel rgb x y = Inr None"
  by (cases rgb) (simp add: shade_pixel_def on_sphere_def dist_sq_def Let_def)

lemma sqrt_z_ok:
  "on_sphere x y \<Longrightarrow> math_sqrt (RADIUS * RADIUS - dist_sq x y) = Inr (sqrt (RADIUS * RADIUS - dist_sq x y))"
  by (simp add: math_sqrt_def on_sphere_def)

lemma div_radius_ok: "float_div a RADIUS = Inr (a / RADIUS)"
  by (simp add: float_div_def RADIUS_def)

lemma sqrt_dist_ok: "math_sqrt (dist_sq x y) = Inr (sqrt (dist_sq x y))"
  using dist_sq_nonneg[of x y] by (simp add: math_sqrt_def)

lemma specular_ok:
  assumes on: "on_sphere x y"
  shows "(if diffuse_at x y > 0
          then (let rz = 2 * diffuse_at x y * nz_at x y - LZ
                in if rz > 0 then float_pow rz 20 else Inr 0)
          else Inr 0) = Inr (specular_at x y)"
proof -
  have "\<not> float_overflow (rz_at x y ^ 20)" if "rz_at x y > 0"
  proof -
    have "rz_at x y ^ 20 \<le> 7 ^ 20" using rz_bound[OF on] that by (intro power_mono) simp_all
    moreover have "0 \<le> rz_at x y ^ 20" using that by simp
    ultimately show ?thesis by (simp add: float_overflow_def)
  qed
  then show ?thesis
    by (simp add: specular_at_def Let_def float_pow_def rz_at_def[symmetric])
qed

lemma times_ok: "\<bar>base\<bar> \<le> 255 \<Longrightarrow> int_times_float base v = Inr (real_of_int base * v)"
  by (simp add: int_times_float_def float_overflow_def)

lemma channel_ok:
  "on_sphere x y \<Longrightarrow> \<bar>base\<bar> \<le> 255 \<Longrightarrow>
   float_to_int (real_of_int base * light_intensity_at x y + specular_at x y * 255 * 0.4)
     = Inr (trunc (channel_value base x y))"
  using no_overflow_small[OF channel_value_bound, of x y base]
  by (simp add: float_to_int_def channel_value_def)

lemma edge_dist_nonneg: "on_sphere x y \<Longrightarrow> 0 \<le> edge_dist_at x y"
proof -
  assume "on_sphere x y"
  then have "dist_sq x y \<le> 60\<^sup>2" by (simp add: on_sphere_def RADIUS_def)
  then have "sqrt (dist_sq x y) \<le> 60" by (intro real_le_lsqrt) simp_all
  then show ?thesis by (simp add: edge_dist_at_def RADIUS_def)
qed

lemma alpha_ok:
  assumes on: "on_sphere x y"
  shows "(if edge_dist_at x y < 1.0 then float_to_int (255 * edge_dist_at x y) else Inr 255)
         = Inr (alpha_at x y)"
proof -
  have "\<not> float_overflow (255 * edge_dist_at x y)" if "edge_dist_at x y < 1"
    using that edge_dist_nonneg[OF on] by (simp add: float_overflow_def)
  then show ?thesis by (simp add: alpha_at_def float_to_int_def)
qed

lemma shade_pixel_on:
  assumes on: "on_sphere x y" and c: "small_color rgb"
  shows "shade_pixel rgb x y = Inr (Some (lit_pixel rgb x y))"
proof -
  obtain r g b where rgb: "rgb = (r, g, b)" by (cases rgb)
  from c rgb have s: "\<bar>r\<bar> \<le> 255" "\<bar>g\<bar> \<le> 255" "\<bar>b\<bar> \<le> 255" by (simp_all add: small_color_def)
  have n: "\<not> RADIUS * RADIUS < dist_sq x y" using on by (simp add: on_sphere_def)
  show ?thesis
    unfolding rgb shade_pixel_def Let_def dist_sq_def[symmetric] prod.case
    apply (simp only: n if_False sqrt_z_ok[OF on] div_radius_ok ebind_Inr
         nz_at_def[symmetric] diffuse_at_def[symmetric] specular_ok[OF on, unfolded Let_def]
         light_intensity_at_def[symmetric] times_ok[OF s(1)] times_ok[OF s(2)] times_ok[OF s(3)]
         channel_ok[OF on s(1)] channel_ok[OF on s(2)] channel_ok[OF on s(3)]
         sqrt_dist_ok edge_dist_at_def[symmetric] alpha_ok[OF on])
    apply (simp add: lit_pixel_def channel_at_def)
    done
qed

lemma row_loop_result:
  assumes c: "small_color rgb"
  shows "y < height img \<Longrightarrow> \<forall>x \<in> set xs. x < width img \<Longrightarrow>
         row_loop rgb y xs img =
           Inr (img\<lparr>pixels := (\<lambda>(x', y'). if y' = y \<and> x' \<in> set xs \<and> on_sphere x' y
                                        then lit_pixel rgb x' y else pixels img (x', y'))\<rparr>)"
proof (induction xs arbitrary: img)
  case Nil
  then show ?case by simp
next
  case (Cons x xs)
  show ?case
  proof (cases "on_sphere x y")
    case True
    let ?img = "img\<lparr>pixels := (pixels img)((x, y) := lit_pixel rgb x y)\<rparr>"
    have p: "putpixel img x y (lit_pixel rgb x y) = Inr ?img"
      using Cons.prems by (simp add: putpixel_def)
    have ih: "row_loop rgb y xs ?img =
           Inr (?img\<lparr>pixels := (\<lambda>(x', y'). if y' = y \<and> x' \<in> set xs \<and> on_sphere x' y
                                        then lit_pixel rgb x' y else pixels ?img (x', y'))\<rparr>)"
      using Cons.prems by (intro Cons.IH) simp_all
    show ?thesis
      using True by (simp add: shade_pixel_on[OF True c] p ih fun_eq_iff)
  next
    case False
    have ih: "row_loop rgb y xs img =
           Inr (img\<lparr>pixels := (\<lambda>(x', y'). if y' = y \<and> x' \<in> set xs \<and> on_sphere x' y
                                        then lit_pixel rgb x' y else pixels img (x', y'))\<rparr>)"
      using Cons.prems by (intro Cons.IH) simp_all
    show ?thesis
      using False by (auto simp add: shade_pixel_off[OF False] ih fun_eq_iff)
  qed
qed

lemma col_loop_result:
  assumes c: "small_color rgb"
  shows "width img = IMG_SIZE \<Longrightarrow> \<forall>y \<in> set ys. y < height img \<Longrightarrow>
         col_loop rgb ys img =
           Inr (img\<lparr>pixels := (\<lambda>(x', y'). if y' \<in> set ys \<and> x' < IMG_SIZE \<and> on_sphere x' y'
                                        then lit_pixel rgb x' y' else pixels img (x', y'))\<rparr>)"
proof (induction ys arbitrary: img)
  case Nil
  then show ?case by simp
next
  case (Cons y ys)
  let ?img = "img\<lparr>pixels := (\<lambda>(x', y'). if y' = y \<and> x' \<in> set [0..<IMG_SIZE] \<and> on_sphere x' y
                                        then lit_pixel rgb x' y else pixels img (x', y'))\<rparr>"
  let ?res = "?img\<lparr>pixels := (\<lambda>(x', y'). if y' \<in> set ys \<and> x' < IMG_SIZE \<and> on_sphere x' y'
                                        then lit_pixel rgb x' y' else pixels ?img (x', y'))\<rparr>"
  have r: "row_loop rgb y [0..<IMG_SIZE] img = Inr ?img"
    using Cons.prems by (intro row_loop_result[OF c]) simp_all
  have ih: "col_loop rgb ys ?img = Inr ?res"
    using Cons.prems by (intro Cons.IH) simp_all
  have "col_loop rgb (y # ys) img = col_loop rgb ys ?img"
    by (simp only: col_loop.simps r ebind_Inr)
  also have "\<dots> = Inr ?res" by (rule ih)
  also have "?res = img\<lparr>pixels := (\<lambda>(x', y'). if y' \<in> set (y # ys) \<and> x' < IMG_SIZE \<and> on_sphere x' y'
                                        then lit_pixel rgb x' y' else pixels img (x', y'))\<rparr>"
    by (rule image.equality) (auto simp add: fun_eq_iff)
  finally show ?case .
qed

lemma generate_sphere_rendered:
  "small_color rgb \<Longrightarrow> generate_sphere rgb = Inr (rendered rgb)"
  unfolding generate_sphere_def
  by (subst col_loop_result) (auto simp add: Image_new_def rendered_def fun_eq_iff)

lemma valid_small: "valid_color rgb \<Longrightarrow> small_color rgb"
  by (cases rgb) (auto simp add: valid_color_def small_color_def)

lemma spec_light_eq: "spec_light = (LX, LY, LZ)"
  by (simp add: spec_light_def LX_def LY_def LZ_def len_l_def Let_def power2_eq_square)

lemma spec_dist_sq: "(real x - 63.5)\<^sup>2 + (real y - 63.5)\<^sup>2 = dist_sq x y"
  by (simp add: dist_sq_def CENTER_def power2_eq_square)

lemma on_sphere_iff: "on_sphere x y \<longleftrightarrow> spec_planar_distance x y \<le> 60"
proof -
  have "spec_planar_distance x y \<le> 60 \<longleftrightarrow> dist_sq x y \<le> 60\<^sup>2"
    unfolding spec_planar_distance_def spec_dist_sq
    using real_sqrt_le_iff[of "dist_sq x y" "60\<^sup>2"] by simp
  then show ?thesis by (simp add: on_sphere_def RADIUS_def not_less)
qed

lemma spec_normal_eq:
  "spec_normal x y = ((real x - CENTER) / RADIUS, (real y - CENTER) / RADIUS, nz_at x y)"
  unfolding spec_normal_def Let_def spec_dist_sq nz_at_def
  by (simp add: CENTER_def RADIUS_def)

lemma spec_diffuse_eq: "spec_diffuse x y = diffuse_at x y"
  by (simp add: spec_diffuse_def spec_normal_eq spec_light_eq spec_dot_def diffuse_at_def)

lemma spec_Rz_eq: "spec_Rz x y = rz_at x y"
  by (simp add: spec_Rz_def spec_diffuse_eq spec_normal_eq spec_light_eq spec_z_def rz_at_def)

lemma spec_specular_eq: "spec_specular x y = specular_at x y"
  by (simp add: spec_specular_def spec_diffuse_eq spec_Rz_eq specular_at_def)

lemma spec_channel_value_eq: "spec_channel_value base x y = channel_value base x y"
  by (simp add: spec_channel_value_def spec_diffuse_eq spec_specular_eq channel_value_def
      light_intensity_at_def)

lemma spec_clamp_eq: "spec_clamp v 0 255 = min 255 (max 0 v)"
  by (simp add: spec_clamp_def)

lemma spec_channel_eq: "spec_channel base x y = channel_at base x y"
  by (simp add: spec_channel_def spec_channel_value_eq spec_clamp_eq channel_at_def)

lemma spec_edge_dist_eq: "spec_edge_dist x y = edge_dist_at x y"
  unfolding spec_edge_dist_def spec_dist_sq by (simp add: edge_dist_at_def RADIUS_def)

lemma render_pixel_eq:
  assumes "small_color rgb" "x < IMG_SIZE" "y < IMG_SIZE"
  shows "render_pixel rgb x y = Inr (if on_sphere x y then lit_pixel rgb x y else (0, 0, 0, 0))"
  using assms
  by (simp add: render_pixel_def generate_sphere_rendered getpixel_def rendered_def)

lemma center_pixel_on: "spec_planar_distance 64 64 \<le> 60"
  unfolding spec_planar_distance_def by (rule real_le_lsqrt) (simp_all add: power2_eq_square)

lemma corner_pixel_off: "60 < spec_planar_distance 5 5"
  unfolding spec_planar_distance_def by (rule real_less_rsqrt) (simp add: power2_eq_square)

lemma off_sphere_iff: "\<not> on_sphere x y \<longleftrightarrow> 60 < spec_planar_distance x y"
  by (simp add: on_sphere_iff not_le)

lemma demo_color_valid: "valid_color (255, 107, 53)"
  by (simp add: valid_color_def)

lemma size_facts: "64 < IMG_SIZE" "5 < IMG_SIZE"
  by (simp_all add: IMG_SIZE_def)

lemma channel_at_range: "0 \<le> channel_at base x y \<and> channel_at base x y \<le> 255"
  by (simp add: channel_at_def)

lemma black_white_valid: "valid_color (0, 0, 0)" "valid_color (255, 255, 255)"
  by (simp_all add: valid_color_def)

section \<open>The shading of an on-sphere pixel\<close>

text \<open>
  C1.  For every pixel of the image whose planar distance from the centre
  \<open>(63.5, 63.5)\<close> is at most 60 and every base colour with channels in
  \<open>[0, 255]\<close>, each of the red, green and blue channels that \<open>generate_sphere\<close>
  leaves in the buffer is the specification's
  \<open>clamp (int (base * (0.3 + 0.7 * diffuse) + specular * 255 * 0.4)) 0 255\<close>, with the
  diffuse and specular terms as the specification words them.
\<close>

theorem C1_channel_formula:
  assumes "valid_color (r_base, g_base, b_base)" and "x < IMG_SIZE" and "y < IMG_SIZE"
    and "spec_planar_distance x y \<le> 60"
  shows "\<exists>p. render_pixel (r_base, g_base, b_base) x y = Inr p
           \<and> red p = spec_channel r_base x y
           \<and> green p = spec_channel g_base x y
           \<and> blue p = spec_channel b_base x y"
proof -
  have on: "on_sphere x y" using assms(4) by (simp add: on_sphere_iff)
  have "render_pixel (r_base, g_base, b_base) x y = Inr (lit_pixel (r_base, g_base, b_base) x y)"
    using render_pixel_eq[OF valid_small[OF assms(1)] assms(2,3)] on by simp
  then show ?thesis
    by (simp add: lit_pixel_def red_def green_def blue_def spec_channel_eq)
qed

theorem C1_channel_formula_witness:
  "\<exists>p. render_pixel (255, 107, 53) 64 64 = Inr p
       \<and> red p = spec_channel 255 64 64
       \<and> green p = spec_channel 107 64 64
       \<and> blue p = spec_channel 53 64 64"
  by (rule C1_channel_formula[OF demo_color_valid size_facts(1) size_facts(1) center_pixel_on])

section \<open>Pixels beyond the radius\<close>

text \<open>
  C10.  For every base colour, every pixel of the returned buffer whose planar distance
  from the centre exceeds 60 is exactly \<open>(0, 0, 0, 0)\<close>: the image is created zeroed
  and such a pixel is never written.
\<close>

theorem C10_off_sphere_zero:
  assumes "valid_color rgb" and "x < IMG_SIZE" and "y < IMG_SIZE"
    and "60 < spec_planar_distance x y"
  shows "render_pixel rgb x y = Inr (0, 0, 0, 0)"
  using render_pixel_eq[OF valid_small[OF assms(1)] assms(2,3)] assms(4)
  by (simp add: on_sphere_iff)

theorem C10_off_sphere_zero_witness:
  "render_pixel (255, 107, 53) 5 5 = Inr (0, 0, 0, 0)"
  by (rule C10_off_sphere_zero[OF demo_color_valid size_facts(2) size_facts(2) corner_pixel_off])

section \<open>Channel range\<close>

text \<open>
  C6.  For every base colour with channels in \<open>[0, 255]\<close>, black and white included,
  and every pixel of the returned buffer, the red, green and blue values lie in
  \<open>[0, 255]\<close>.
\<close>

theorem C6_channels_in_range:
  assumes "valid_color rgb" and "x < IMG_SIZE" and "y < IMG_SIZE"
  shows "\<exists>p. render_pixel rgb x y = Inr p
           \<and> 0 \<le> red p \<and> red p \<le> 255
           \<and> 0 \<le> green p \<and> green p \<le> 255
           \<and> 0 \<le> blue p \<and> blue p \<le> 255"
proof -
  obtain r g b where rgb: "rgb = (r, g, b)" by (cases rgb)
  show ?thesis
    using render_pixel_eq[OF valid_small[OF assms(1)] assms(2,3)]
      channel_at_range[of r x y] channel_at_range[of g x y] channel_at_range[of b x y]
    by (simp add: rgb lit_pixel_def red_def green_def blue_def)
qed

theorem C6_channels_in_range_witness:
  "(\<exists>p. render_pixel (0, 0, 0) 64 64 = Inr p
           \<and> 0 \<le> red p \<and> red p \<le> 255
           \<and> 0 \<le> green p \<and> green p \<le> 255
           \<and> 0 \<le> blue p \<and> blue p \<le> 255)
   \<and> (\<exists>p. render_pixel (255, 255, 255) 64 64 = Inr p
           \<and> 0 \<le> red p \<and> red p \<le> 255
           \<and> 0 \<le> green p \<and> green p \<le> 255
           \<and> 0 \<le> blue p \<and> blue p \<le> 255)"
  using C6_channels_in_range[OF black_white_valid(1) size_facts(1) size_facts(1)]
        C6_channels_in_range[OF black_white_valid(2) size_facts(1) size_facts(1)]
  by simp

lemma alpha_at_range: "on_sphere x y \<Longrightarrow> 0 \<le> alpha_at x y \<and> alpha_at x y \<le> 255"
proof -
  assume on: "on_sphere x y"
  show ?thesis
  proof (cases "edge_dist_at x y < 1")
    case True
    have "0 \<le> 255 * edge_dist_at x y" using edge_dist_nonneg[OF on] by simp
    moreover have "255 * edge_dist_at x y < 255" using True by simp
    ultimately have "0 \<le> \<lfloor>255 * edge_dist_at x y\<rfloor> \<and> \<lfloor>255 * edge_dist_at x y\<rfloor> < 255"
      by (simp add: floor_less_iff)
    then show ?thesis using True edge_dist_nonneg[OF on] by (simp add: alpha_at_def trunc_def)
  next
    case False
    then show ?thesis by (simp add: alpha_at_def)
  qed
qed

lemma alpha_at_mono:
  assumes on1: "on_sphere x1 y1" and on2: "on_sphere x2 y2"
    and d: "dist_sq x2 y2 \<le> dist_sq x1 y1"
  shows "alpha_at x1 y1 \<le> alpha_at x2 y2"
proof -
  have e: "edge_dist_at x1 y1 \<le> edge_dist_at x2 y2"
    using d by (simp add: edge_dist_at_def)
  show ?thesis
  proof (cases "edge_dist_at x2 y2 < 1")
    case True
    then have t1: "edge_dist_at x1 y1 < 1" using e by simp
    have "\<lfloor>255 * edge_dist_at x1 y1\<rfloor> \<le> \<lfloor>255 * edge_dist_at x2 y2\<rfloor>"
      using e by (intro floor_mono) simp
    then show ?thesis
      using True t1 edge_dist_nonneg[OF on1] edge_dist_nonneg[OF on2]
      by (simp add: alpha_at_def trunc_def)
  next
    case False
    then have "alpha_at x2 y2 = 255" by (simp add: alpha_at_def)
    then show ?thesis using alpha_at_range[OF on1] by simp
  qed
qed

lemma dist_le_iff:
  "spec_planar_distance x2 y2 \<le> spec_planar_distance x1 y1 \<longleftrightarrow> dist_sq x2 y2 \<le> dist_sq x1 y1"
  unfolding spec_planar_distance_def spec_dist_sq by simp

lemma inner_alpha:
  assumes "spec_planar_distance x y \<le> 59"
  shows "alpha_at x y = 255"
proof -
  have "1 \<le> edge_dist_at x y"
    using assms unfolding spec_planar_distance_def spec_dist_sq edge_dist_at_def
    by (simp add: RADIUS_def)
  then show ?thesis by (simp add: alpha_at_def)
qed

lemma render_alpha:
  assumes "small_color rgb" "x < IMG_SIZE" "y < IMG_SIZE"
  shows "\<exists>p. render_pixel rgb x y = Inr p \<and> alpha p = (if on_sphere x y then alpha_at x y else 0)"
  using render_pixel_eq[OF assms]
  by (cases rgb) (simp add: lit_pixel_def alpha_def)

section \<open>Edge alpha\<close>

text \<open>
  C7.  The alpha of a pixel depends on its planar distance from the centre only, and it
  does not decrease as that distance decreases: of two pixels of the image, the one
  nearer the centre (in particular the nearer one along a fixed direction) has the
  alpha that is at least as large.  It is 0 beyond distance 60, stays within
  \<open>[0, 255]\<close>, and is 255 at distance 59 and inside.
\<close>

theorem C7_alpha_monotone:
  assumes "valid_color rgb" and "x1 < IMG_SIZE" and "y1 < IMG_SIZE"
    and "x2 < IMG_SIZE" and "y2 < IMG_SIZE"
    and "spec_planar_distance x2 y2 \<le> spec_planar_distance x1 y1"
  shows "\<exists>p1 p2. render_pixel rgb x1 y1 = Inr p1 \<and> render_pixel rgb x2 y2 = Inr p2
           \<and> alpha p1 \<le> alpha p2
           \<and> 0 \<le> alpha p1 \<and> alpha p2 \<le> 255
           \<and> (60 < spec_planar_distance x1 y1 \<longrightarrow> alpha p1 = 0)
           \<and> (spec_planar_distance x2 y2 \<le> 59 \<longrightarrow> alpha p2 = 255)"
proof -
  note s = valid_small[OF assms(1)]
  obtain p1 where p1: "render_pixel rgb x1 y1 = Inr p1"
      "alpha p1 = (if on_sphere x1 y1 then alpha_at x1 y1 else 0)"
    using render_alpha[OF s assms(2,3)] by blast
  obtain p2 where p2: "render_pixel rgb x2 y2 = Inr p2"
      "alpha p2 = (if on_sphere x2 y2 then alpha_at x2 y2 else 0)"
    using render_alpha[OF s assms(4,5)] by blast
  have d: "dist_sq x2 y2 \<le> dist_sq x1 y1" using assms(6) by (simp add: dist_le_iff)
  have on21: "on_sphere x1 y1 \<Longrightarrow> on_sphere x2 y2"
    using d by (simp add: on_sphere_def)
  have mono: "alpha p1 \<le> alpha p2"
  proof (cases "on_sphere x1 y1")
    case True
    then show ?thesis using p1(2) p2(2) on21 alpha_at_mono[OF True on21[OF True] d] by simp
  next
    case False
    then show ?thesis using p1(2) p2(2) alpha_at_range[of x2 y2] by simp
  qed
  have lo: "0 \<le> alpha p1" using p1(2) alpha_at_range[of x1 y1] by simp
  have hi: "alpha p2 \<le> 255" using p2(2) alpha_at_range[of x2 y2] by simp
  have out: "60 < spec_planar_distance x1 y1 \<longrightarrow> alpha p1 = 0"
    using p1(2) by (simp add: on_sphere_iff)
  have inn: "spec_planar_distance x2 y2 \<le> 59 \<longrightarrow> alpha p2 = 255"
    using p2(2) inner_alpha[of x2 y2] by (simp add: on_sphere_iff)
  show ?thesis using p1(1) p2(1) mono lo hi out inn by blast
qed

lemma diagonal_facts:
  "105 < IMG_SIZE" "106 < IMG_SIZE"
  "spec_planar_distance 105 105 \<le> spec_planar_distance 106 106"
  "60 < spec_planar_distance 106 106"
  "spec_planar_distance 105 105 \<le> 59"
proof -
  show "105 < IMG_SIZE" "106 < IMG_SIZE" by (simp_all add: IMG_SIZE_def)
  show "spec_planar_distance 105 105 \<le> spec_planar_distance 106 106"
    by (simp add: spec_planar_distance_def power2_eq_square)
  show "60 < spec_planar_distance 106 106"
    unfolding spec_planar_distance_def by (rule real_less_rsqrt) (simp add: power2_eq_square)
  show "spec_planar_distance 105 105 \<le> 59"
    unfolding spec_planar_distance_def by (rule real_le_lsqrt) (simp_all add: power2_eq_square)
qed

theorem C7_alpha_monotone_witness:
  "\<exists>p1 p2. render_pixel (255, 107, 53) 106 106 = Inr p1
         \<and> render_pixel (255, 107, 53) 105 105 = Inr p2
         \<and> alpha p1 \<le> alpha p2 \<and> alpha p1 = 0 \<and> alpha p2 = 255"
  using C7_alpha_monotone[OF demo_color_valid diagonal_facts(2) diagonal_facts(2)
      diagonal_facts(1) diagonal_facts(1) diagonal_facts(3)]
    diagonal_facts(4) diagonal_facts(5)
  by auto

section \<open>Totality\<close>

text \<open>
  C8.  For every colour with channels in \<open>[0, 255]\<close>, \<open>generate_sphere\<close> returns an
  image, of 128 by 128 pixels each of which can be read, and raises nothing: on every
  on-sphere pixel the argument of the square root is non-negative, and the divisions
  are by the non-zero constant \<open>RADIUS\<close>.
\<close>

theorem C8_generate_sphere_total:
  assumes "valid_color rgb"
  shows "(\<exists>img. generate_sphere rgb = Inr img \<and> width img = IMG_SIZE \<and> height img = IMG_SIZE)
       \<and> (x < IMG_SIZE \<and> y < IMG_SIZE \<longrightarrow> (\<exists>p. render_pixel rgb x y = Inr p))
       \<and> (spec_planar_distance x y \<le> 60 \<longrightarrow>
            0 \<le> 60\<^sup>2 - ((real x - 63.5)\<^sup>2 + (real y - 63.5)\<^sup>2)
          \<and> 0 \<le> RADIUS * RADIUS - dist_sq x y
          \<and> math_sqrt (RADIUS * RADIUS - dist_sq x y) = Inr (sqrt (RADIUS * RADIUS - dist_sq x y)))
       \<and> RADIUS \<noteq> 0
       \<and> float_div a RADIUS = Inr (a / RADIUS)"
proof -
  note s = valid_small[OF assms]
  have a: "\<exists>img. generate_sphere rgb = Inr img \<and> width img = IMG_SIZE \<and> height img = IMG_SIZE"
    by (simp add: generate_sphere_rendered[OF s] rendered_def)
  have b: "x < IMG_SIZE \<and> y < IMG_SIZE \<longrightarrow> (\<exists>p. render_pixel rgb x y = Inr p)"
    using render_pixel_eq[OF s, of x y] by (simp del: split_paired_Ex)
  have c: "spec_planar_distance x y \<le> 60 \<longrightarrow>
            0 \<le> 60\<^sup>2 - ((real x - 63.5)\<^sup>2 + (real y - 63.5)\<^sup>2)
          \<and> 0 \<le> RADIUS * RADIUS - dist_sq x y
          \<and> math_sqrt (RADIUS * RADIUS - dist_sq x y) = Inr (sqrt (RADIUS * RADIUS - dist_sq x y))"
    unfolding spec_dist_sq on_sphere_iff[symmetric]
    using sqrt_z_ok[of x y] by (simp add: on_sphere_def RADIUS_def)
  have d: "RADIUS \<noteq> 0" by (simp add: RADIUS_def)
  show ?thesis using a b c d div_radius_ok[of a] by blast
qed

theorem C8_generate_sphere_total_witness:
  "(\<exists>img. generate_sphere (255, 107, 53) = Inr img \<and> width img = IMG_SIZE \<and> height img = IMG_SIZE)
   \<and> (\<exists>p. render_pixel (255, 107, 53) 64 64 = Inr p)
   \<and> 0 \<le> RADIUS * RADIUS - dist_sq 64 64
   \<and> math_sqrt (RADIUS * RADIUS - dist_sq 64 64) = Inr (sqrt (RADIUS * RADIUS - dist_sq 64 64))
   \<and> float_div 1 RADIUS = Inr (1 / RADIUS)"
  using C8_generate_sphere_total[OF demo_color_valid, of 64 64 1] size_facts(1) center_pixel_on
  by (simp del: split_paired_Ex)

lemma rendered_alpha_on:
  assumes "small_color rgb" "x < IMG_SIZE" "y < IMG_SIZE" "on_sphere x y"
  shows "rendered_alpha rgb x y = Inr (alpha_at x y)"
  using render_pixel_eq[OF assms(1-3)] assms(4)
  by (cases rgb) (simp add: rendered_alpha_def lit_pixel_def alpha_def)

lemma alpha_at_floor:
  assumes "on_sphere x y"
  shows "alpha_at x y =
           (if spec_edge_dist x y < 1 then \<lfloor>255 * spec_edge_dist x y\<rfloor> else 255)"
  using edge_dist_nonneg[OF assms]
  by (simp add: alpha_at_def trunc_def spec_edge_dist_eq)

lemma sqrt_between:
  assumes "0 \<le> lo" "lo\<^sup>2 < d" "d \<le> hi\<^sup>2" "0 \<le> hi"
  shows "lo < sqrt d \<and> sqrt d \<le> hi"
  using assms real_less_rsqrt[of lo d] real_le_lsqrt[of hi d] by simp

lemma edge_63_4: "spec_edge_dist 63 4 = 60 - sqrt (7081 / 2)"
  by (simp add: spec_edge_dist_def power2_eq_square)

lemma sqrt_63_4: "15173 / 255 < sqrt (7081 / 2) \<and> sqrt (7081 / 2) \<le> 30347 / 510"
  by (rule sqrt_between) (simp_all add: power2_eq_square)

lemma pixel_63_4:
  "63 < IMG_SIZE" "4 < IMG_SIZE" "spec_planar_distance 63 4 \<le> 60" "spec_edge_dist 63 4 < 1"
  "\<lfloor>255 * spec_edge_dist 63 4\<rfloor> = 126" "round (255 * spec_edge_dist 63 4) = 127"
proof -
  show "63 < IMG_SIZE" "4 < IMG_SIZE" by (simp_all add: IMG_SIZE_def)
  show "spec_planar_distance 63 4 \<le> 60"
    unfolding spec_planar_distance_def by (rule real_le_lsqrt) (simp_all add: power2_eq_square)
  show "spec_edge_dist 63 4 < 1" using sqrt_63_4 by (simp add: edge_63_4)
  show "\<lfloor>255 * spec_edge_dist 63 4\<rfloor> = 126"
    using sqrt_63_4 by (simp add: edge_63_4 floor_eq_iff field_simps)
  show "round (255 * spec_edge_dist 63 4) = 127"
    using sqrt_63_4 by (simp add: edge_63_4 round_def floor_eq_iff field_simps)
qed

text \<open>
  C4 as stated fails.  The claim reads the alpha of the edge ring as
  \<open>round (255 * edge_dist)\<close>.  At the pixel \<open>(63, 4)\<close>, which is on the sphere and
  less than one unit inside the silhouette, \<open>255 * edge_dist\<close> is about 126.96: the
  buffer holds 126, the rounded value is 127.
\<close>

theorem C4_rounded_alpha_counterexample:
  "valid_color (255, 107, 53) \<and> 63 < IMG_SIZE \<and> 4 < IMG_SIZE
   \<and> spec_planar_distance 63 4 \<le> 60 \<and> spec_edge_dist 63 4 < 1
   \<and> rendered_alpha (255, 107, 53) 63 4 = Inr 126
   \<and> spec_rounded_alpha 63 4 = 127"
proof -
  have on: "on_sphere 63 4" using pixel_63_4(3) by (simp add: on_sphere_iff)
  have "rendered_alpha (255, 107, 53) 63 4 = Inr 126"
    using rendered_alpha_on[OF valid_small[OF demo_color_valid] pixel_63_4(1,2) on]
      alpha_at_floor[OF on] pixel_63_4(4,5) by simp
  moreover have "spec_rounded_alpha 63 4 = 127"
    using pixel_63_4(4,6) by (simp add: spec_rounded_alpha_def)
  ultimately show ?thesis using demo_color_valid pixel_63_4 by simp
qed

text \<open>
  C4, amended.  For every on-sphere pixel with \<open>edge_dist < 1\<close> the output alpha is
  \<open>255 * edge_dist\<close> truncated to an integer, which is its floor since \<open>edge_dist\<close>
  is not negative; for every on-sphere pixel with \<open>edge_dist \<ge> 1\<close> it is 255.
\<close>

theorem C4_truncated_alpha:
  assumes "valid_color rgb" and "x < IMG_SIZE" and "y < IMG_SIZE"
    and "spec_planar_distance x y \<le> 60"
  shows "rendered_alpha rgb x y =
           Inr (if spec_edge_dist x y < 1 then \<lfloor>255 * spec_edge_dist x y\<rfloor> else 255)
       \<and> 0 \<le> spec_edge_dist x y"
proof -
  have on: "on_sphere x y" using assms(4) by (simp add: on_sphere_iff)
  show ?thesis
    using rendered_alpha_on[OF valid_small[OF assms(1)] assms(2,3) on] alpha_at_floor[OF on]
      edge_dist_nonneg[OF on]
    by (simp add: spec_edge_dist_eq)
qed

theorem C4_truncated_alpha_witness:
  "rendered_alpha (255, 107, 53) 63 4 =
     Inr (if spec_edge_dist 63 4 < 1 then \<lfloor>255 * spec_edge_dist 63 4\<rfloor> else 255)
   \<and> 0 \<le> spec_edge_dist 63 4"
  by (rule C4_truncated_alpha[OF demo_color_valid pixel_63_4(1) pixel_63_4(2) pixel_63_4(3)])

lemma len_l_bounds: "1 \<le> len_l \<and> len_l \<le> 1.068"
proof -
  have "len_l \<le> 1.068"
    unfolding len_l_def by (rule real_le_lsqrt) (simp_all add: power2_eq_square)
  then show ?thesis using len_l_ge1 by simp
qed

lemma dist_sq_97: "dist_sq 97 97 = 4489 / 2" "dist_sq 30 30 = 4489 / 2"
  by (simp_all add: dist_sq_def CENTER_def)

lemma nz_97: "nz_at 97 97 = sqrt (2711 / 2) / 60" "nz_at 30 30 = sqrt (2711 / 2) / 60"
  by (simp_all add: nz_at_def dist_sq_97 RADIUS_def)

lemma sqrt_2711: "36.8 \<le> sqrt (2711 / 2) \<and> sqrt (2711 / 2) \<le> 41.875"
proof -
  have "36.8 \<le> sqrt (2711 / 2)" by (rule real_le_rsqrt) (simp add: power2_eq_square)
  moreover have "sqrt (2711 / 2) \<le> 41.875"
    by (rule real_le_lsqrt) (simp_all add: power2_eq_square)
  ultimately show ?thesis by simp
qed

lemma dot_light:
  assumes "l \<noteq> 0"
  shows "a / 60 * (- 0.5 / l) + a / 60 * (- 0.5 / l) + s / 60 * (0.8 / l)
         = (0.8 * s - a) / (60 * (l :: real))"
  using assms by (simp add: field_simps)

lemma len_l_nonzero: "len_l \<noteq> 0"
  using len_l_ge1 by simp

lemma diffuse_97: "diffuse_at 97 97 = 0"
proof -
  have "(real 97 - CENTER) / RADIUS * LX + (real 97 - CENTER) / RADIUS * LY + nz_at 97 97 * LZ
        = (0.8 * sqrt (2711 / 2) - 33.5) / (60 * len_l)"
    using dot_light[OF len_l_nonzero, of "33.5" "sqrt (2711 / 2)"]
    by (simp add: CENTER_def RADIUS_def LX_def LY_def LZ_def nz_97)
  moreover have "(0.8 * sqrt (2711 / 2) - 33.5) / (60 * len_l) \<le> 0"
    using sqrt_2711 len_l_bounds by (intro divide_nonpos_pos) simp_all
  ultimately show ?thesis unfolding diffuse_at_def by simp
qed

lemma diffuse_30: "0.9 \<le> diffuse_at 30 30"
proof -
  have e: "(real 30 - CENTER) / RADIUS * LX + (real 30 - CENTER) / RADIUS * LY + nz_at 30 30 * LZ
        = (0.8 * sqrt (2711 / 2) + 33.5) / (60 * len_l)"
    using dot_light[OF len_l_nonzero, of "- 33.5" "sqrt (2711 / 2)"]
    by (simp add: CENTER_def RADIUS_def LX_def LY_def LZ_def nz_97)
  have "0.9 * (60 * len_l) \<le> 0.8 * sqrt (2711 / 2) + 33.5"
    using sqrt_2711 len_l_bounds by simp
  then have "0.9 \<le> (0.8 * sqrt (2711 / 2) + 33.5) / (60 * len_l)"
    using len_l_bounds by (simp add: pos_le_divide_eq)
  also have "\<dots> \<le> max 0 ((0.8 * sqrt (2711 / 2) + 33.5) / (60 * len_l))"
    by (rule max.cobounded2)
  also have "\<dots> = diffuse_at 30 30"
    by (simp only: diffuse_at_def e)
  finally show ?thesis .
qed

lemma trunc_mono: "a \<le> b \<Longrightarrow> trunc a \<le> trunc b"
proof -
  assume ab: "a \<le> b"
  show ?thesis
  proof (cases "0 \<le> a")
    case True
    then show ?thesis using ab by (simp add: trunc_def floor_mono)
  next
    case False
    show ?thesis
    proof (cases "0 \<le> b")
      case True
      have "\<lceil>a\<rceil> \<le> 0" using False by (simp add: ceiling_le_iff)
      moreover have "0 \<le> \<lfloor>b\<rfloor>" using True by simp
      ultimately have "\<lceil>a\<rceil> \<le> \<lfloor>b\<rfloor>" by linarith
      then show ?thesis using False True by (simp add: trunc_def)
    next
      case b: False
      then show ?thesis using False ab by (simp add: trunc_def ceiling_mono)
    qed
  qed
qed

lemma trunc_of_int: "trunc (real_of_int n) = n"
  by (simp add: trunc_def)

lemma trunc_ge: "real_of_int n \<le> v \<Longrightarrow> n \<le> trunc v"
  using trunc_mono[of "real_of_int n" v] by (simp add: trunc_of_int)

lemma lit_channel_lower:
  assumes "0 \<le> base" and "real_of_int n \<le> real_of_int base * 0.93" and "n \<le> 255"
  shows "n \<le> spec_clamp (trunc (real_of_int base * (0.3 + 0.7 * diffuse_at 30 30))) 0 255"
    and "n \<le> channel_at base 30 30"
proof -
  have on: "on_sphere 30 30" by (simp add: on_sphere_def dist_sq_97 RADIUS_def)
  have "0.93 \<le> 0.3 + 0.7 * diffuse_at 30 30" using diffuse_30 by simp
  then have "real_of_int base * 0.93 \<le> real_of_int base * (0.3 + 0.7 * diffuse_at 30 30)"
    using assms(1) by (intro mult_left_mono) simp_all
  then have a: "real_of_int n \<le> real_of_int base * (0.3 + 0.7 * diffuse_at 30 30)"
    using assms(2) by linarith
  then have t: "n \<le> trunc (real_of_int base * (0.3 + 0.7 * diffuse_at 30 30))"
    by (rule trunc_ge)
  then show "n \<le> spec_clamp (trunc (real_of_int base * (0.3 + 0.7 * diffuse_at 30 30))) 0 255"
    using assms(3) by (simp add: spec_clamp_eq)
  have "real_of_int base * (0.3 + 0.7 * diffuse_at 30 30) \<le> channel_value base 30 30"
    using specular_bounds[OF on] by (simp add: channel_value_def light_intensity_at_def algebra_simps)
  then have "real_of_int n \<le> channel_value base 30 30" using a by linarith
  then have "n \<le> trunc (channel_value base 30 30)" by (rule trunc_ge)
  then show "n \<le> channel_at base 30 30" using assms(3) by (simp add: channel_at_def)
qed

lemma specular_97: "specular_at 97 97 = 0"
  by (simp add: specular_at_def diffuse_97)

lemma shaded_97:
  "channel_at 255 97 97 = 76" "channel_at 107 97 97 = 32" "channel_at 53 97 97 = 15"
  by (simp_all add: channel_at_def channel_value_def light_intensity_at_def diffuse_97
      specular_97 trunc_def floor_eq_iff)

lemma pre_specular_97: "spec_pre_specular (255, 107, 53) 97 97 = 123"
  by (simp add: spec_pre_specular_def spec_diffuse_eq diffuse_97 spec_clamp_def trunc_def
      floor_eq_iff)

lemma pre_specular_30: "385 \<le> spec_pre_specular (255, 107, 53) 30 30"
  using lit_channel_lower(1)[of 255 237] lit_channel_lower(1)[of 107 99]
    lit_channel_lower(1)[of 53 49]
  by (simp add: spec_pre_specular_def spec_diffuse_eq)

lemma scenario_sizes: "30 < IMG_SIZE" "97 < IMG_SIZE"
  by (simp_all add: IMG_SIZE_def)

section \<open>The concrete scenario\<close>

text \<open>
  C9.  For the base colour \<open>(255, 107, 53)\<close> with the default geometry and light, the
  pixel at \<open>(30, 30)\<close> has a strictly higher combined intensity before the specular
  term than the pixel at \<open>(97, 97)\<close>, both as the sum of the three truncated and
  clamped channels and as the sum of the three products with the light intensity; the
  same holds of the sums of the channels the buffer holds.  The pixel at \<open>(5, 5)\<close>
  lies beyond the radius and has alpha 0.
\<close>

theorem C9_concrete_scenario:
  "spec_pre_specular (255, 107, 53) 97 97 < spec_pre_specular (255, 107, 53) 30 30
   \<and> real_of_int (255 + 107 + 53) * (0.3 + 0.7 * spec_diffuse 97 97)
       < real_of_int (255 + 107 + 53) * (0.3 + 0.7 * spec_diffuse 30 30)
   \<and> (\<exists>p q. render_pixel (255, 107, 53) 30 30 = Inr p
            \<and> render_pixel (255, 107, 53) 97 97 = Inr q
            \<and> red q + green q + blue q < red p + green p + blue p)
   \<and> 60 < spec_planar_distance 5 5
   \<and> rendered_alpha (255, 107, 53) 5 5 = Inr 0"
proof -
  note s = valid_small[OF demo_color_valid]
  have on30: "on_sphere 30 30" and on97: "on_sphere 97 97"
    by (simp_all add: on_sphere_def dist_sq_97 RADIUS_def)
  have a: "spec_pre_specular (255, 107, 53) 97 97 < spec_pre_specular (255, 107, 53) 30 30"
    using pre_specular_97 pre_specular_30 by simp
  have b: "real_of_int (255 + 107 + 53) * (0.3 + 0.7 * spec_diffuse 97 97)
       < real_of_int (255 + 107 + 53) * (0.3 + 0.7 * spec_diffuse 30 30)"
    using diffuse_30 by (simp add: spec_diffuse_eq diffuse_97)
  have p: "render_pixel (255, 107, 53) 30 30 = Inr (lit_pixel (255, 107, 53) 30 30)"
    using render_pixel_eq[OF s scenario_sizes(1) scenario_sizes(1)] on30 by simp
  have q: "render_pixel (255, 107, 53) 97 97 = Inr (lit_pixel (255, 107, 53) 97 97)"
    using render_pixel_eq[OF s scenario_sizes(2) scenario_sizes(2)] on97 by simp
  have "red (lit_pixel (255, 107, 53) 97 97) + green (lit_pixel (255, 107, 53) 97 97)
          + blue (lit_pixel (255, 107, 53) 97 97)
        < red (lit_pixel (255, 107, 53) 30 30) + green (lit_pixel (255, 107, 53) 30 30)
          + blue (lit_pixel (255, 107, 53) 30 30)"
    using lit_channel_lower(2)[of 255 237] lit_channel_lower(2)[of 107 99]
      lit_channel_lower(2)[of 53 49]
    by (simp add: lit_pixel_def red_def green_def blue_def shaded_97)
  then have c: "\<exists>p q. render_pixel (255, 107, 53) 30 30 = Inr p
            \<and> render_pixel (255, 107, 53) 97 97 = Inr q
            \<and> red q + green q + blue q < red p + green p + blue p"
    using p q by blast
  have e: "rendered_alpha (255, 107, 53) 5 5 = Inr 0"
    using render_pixel_eq[OF s size_facts(2) size_facts(2)] corner_pixel_off
    by (simp add: rendered_alpha_def on_sphere_iff alpha_def)
  show ?thesis using a b c corner_pixel_off e by blast
qed

lemma trunc_truncates: "spec_truncates (trunc v) v"
proof (cases "0 \<le> v")
  case True
  then have "0 \<le> \<lfloor>v\<rfloor>" by simp
  moreover have "real_of_int \<lfloor>v\<rfloor> \<le> v" "v < real_of_int \<lfloor>v\<rfloor> + 1" by linarith+
  ultimately show ?thesis using True by (simp add: spec_truncates_def trunc_def)
next
  case False
  then have "\<lceil>v\<rceil> \<le> 0" by (simp add: ceiling_le_iff)
  moreover have "v \<le> real_of_int \<lceil>v\<rceil>" "real_of_int \<lceil>v\<rceil> < v + 1" by linarith+
  ultimately show ?thesis
    using False by (simp add: spec_truncates_def trunc_def mult_nonpos_nonpos)
qed

lemma edge_55_5: "spec_edge_dist 55 5 = 60 - sqrt (6989 / 2)"
  by (simp add: spec_edge_dist_def power2_eq_square)

lemma sqrt_55_5: "15074 / 255 < sqrt (6989 / 2) \<and> sqrt (6989 / 2) \<le> 30149 / 510"
  by (rule sqrt_between) (simp_all add: power2_eq_square)

lemma pixel_55_5:
  "55 < IMG_SIZE" "5 < IMG_SIZE" "spec_planar_distance 55 5 \<le> 60" "spec_edge_dist 55 5 < 1"
  "\<lfloor>255 * spec_edge_dist 55 5\<rfloor> = 225" "round (255 * spec_edge_dist 55 5) = 226"
proof -
  show "55 < IMG_SIZE" "5 < IMG_SIZE" by (simp_all add: IMG_SIZE_def)
  show "spec_planar_distance 55 5 \<le> 60"
    unfolding spec_planar_distance_def by (rule real_le_lsqrt) (simp_all add: power2_eq_square)
  show "spec_edge_dist 55 5 < 1" using sqrt_55_5 by (simp add: edge_55_5)
  show "\<lfloor>255 * spec_edge_dist 55 5\<rfloor> = 225"
    using sqrt_55_5 by (simp add: edge_55_5 floor_eq_iff field_simps)
  show "round (255 * spec_edge_dist 55 5) = 226"
    using sqrt_55_5 by (simp add: edge_55_5 round_def floor_eq_iff field_simps)
qed

lemma alpha_97: "alpha_at 97 97 = 255"
proof -
  have "sqrt (4489 / 2) \<le> 59" by (rule real_le_lsqrt) (simp_all add: power2_eq_square)
  then show ?thesis by (simp add: alpha_at_def edge_dist_at_def dist_sq_97 RADIUS_def)
qed

lemma dim_channel_97:
  "channel_value 9 97 97 = 2.7" "channel_at 9 97 97 = 2"
  by (simp_all add: channel_at_def channel_value_def light_intensity_at_def diffuse_97
      specular_97 trunc_def floor_eq_iff)

lemma dim_color_valid: "valid_color (9, 9, 9)"
  by (simp add: valid_color_def)

lemma dim_pixel_97: "render_pixel (9, 9, 9) 97 97 = Inr (2, 2, 2, 255)"
proof -
  have on97: "on_sphere 97 97" by (simp add: on_sphere_def dist_sq_97 RADIUS_def)
  show ?thesis
    using render_pixel_eq[OF valid_small[OF dim_color_valid] scenario_sizes(2) scenario_sizes(2)]
      on97
    by (simp add: lit_pixel_def dim_channel_97 alpha_97)
qed

lemma round_dim_97: "round (spec_channel_value 9 97 97) = 3"
  by (simp add: spec_channel_value_eq dim_channel_97 round_def floor_eq_iff)

lemma dim_alpha_55_5: "rendered_alpha (9, 9, 9) 55 5 = Inr 225"
proof -
  have on: "on_sphere 55 5" using pixel_55_5(3) by (simp add: on_sphere_iff)
  show ?thesis
    using rendered_alpha_on[OF valid_small[OF dim_color_valid] pixel_55_5(1,2) on]
      alpha_at_floor[OF on] pixel_55_5(4,5) by simp
qed

section \<open>Conversion to integers\<close>

text \<open>
  C3.  For every on-sphere pixel and every base colour, each channel of the buffer is
  the clamp to \<open>[0, 255]\<close> of the channel value truncated toward zero, and the alpha
  of a pixel with \<open>edge_dist < 1\<close> is \<open>255 * edge_dist\<close> truncated toward zero.
  The conversion is not a rounding to nearest: for the colour \<open>(9, 9, 9)\<close> the channel
  value 2.7 at \<open>(97, 97)\<close> gives 2 where rounding gives 3, and the alpha value of
  about 225.85 at \<open>(55, 5)\<close> gives 225 where rounding gives 226.
\<close>

theorem C3_truncation:
  assumes "valid_color (r_base, g_base, b_base)" and "x < IMG_SIZE" and "y < IMG_SIZE"
    and "spec_planar_distance x y \<le> 60"
  shows "(\<exists>p tr tg tb. render_pixel (r_base, g_base, b_base) x y = Inr p
           \<and> spec_truncates tr (spec_channel_value r_base x y) \<and> red p = spec_clamp tr 0 255
           \<and> spec_truncates tg (spec_channel_value g_base x y) \<and> green p = spec_clamp tg 0 255
           \<and> spec_truncates tb (spec_channel_value b_base x y) \<and> blue p = spec_clamp tb 0 255
           \<and> (spec_edge_dist x y < 1 \<longrightarrow> spec_truncates (alpha p) (255 * spec_edge_dist x y)))
       \<and> render_pixel (9, 9, 9) 97 97 = Inr (2, 2, 2, 255)
       \<and> round (spec_channel_value 9 97 97) = 3
       \<and> rendered_alpha (9, 9, 9) 55 5 = Inr 225
       \<and> round (255 * spec_edge_dist 55 5) = 226"
proof -
  have on: "on_sphere x y" using assms(4) by (simp add: on_sphere_iff)
  let ?p = "lit_pixel (r_base, g_base, b_base) x y"
  have p: "render_pixel (r_base, g_base, b_base) x y = Inr ?p"
    using render_pixel_eq[OF valid_small[OF assms(1)] assms(2,3)] on by simp
  have ch: "red ?p = spec_clamp (trunc (spec_channel_value r_base x y)) 0 255"
      "green ?p = spec_clamp (trunc (spec_channel_value g_base x y)) 0 255"
      "blue ?p = spec_clamp (trunc (spec_channel_value b_base x y)) 0 255"
    by (simp_all add: lit_pixel_def red_def green_def blue_def spec_channel_eq[symmetric]
        spec_channel_def)
  have al: "spec_edge_dist x y < 1 \<longrightarrow> spec_truncates (alpha ?p) (255 * spec_edge_dist x y)"
    using trunc_truncates[of "255 * edge_dist_at x y"]
    by (simp add: lit_pixel_def alpha_def alpha_at_def spec_edge_dist_eq)
  have "\<exists>p tr tg tb. render_pixel (r_base, g_base, b_base) x y = Inr p
           \<and> spec_truncates tr (spec_channel_value r_base x y) \<and> red p = spec_clamp tr 0 255
           \<and> spec_truncates tg (spec_channel_value g_base x y) \<and> green p = spec_clamp tg 0 255
           \<and> spec_truncates tb (spec_channel_value b_base x y) \<and> blue p = spec_clamp tb 0 255
           \<and> (spec_edge_dist x y < 1 \<longrightarrow> spec_truncates (alpha p) (255 * spec_edge_dist x y))"
    using p ch al trunc_truncates by blast
  then show ?thesis
    using dim_pixel_97 round_dim_97 dim_alpha_55_5 pixel_55_5(6) by blast
qed

theorem C3_truncation_witness:
  "(\<exists>p tr tg tb. render_pixel (255, 107, 53) 55 5 = Inr p
           \<and> spec_truncates tr (spec_channel_value 255 55 5) \<and> red p = spec_clamp tr 0 255
           \<and> spec_truncates tg (spec_channel_value 107 55 5) \<and> green p = spec_clamp tg 0 255
           \<and> spec_truncates tb (spec_channel_value 53 55 5) \<and> blue p = spec_clamp tb 0 255
           \<and> spec_truncates (alpha p) (255 * spec_edge_dist 55 5))"
  using C3_truncation[OF demo_color_valid pixel_55_5(1) pixel_55_5(2) pixel_55_5(3)]
    pixel_55_5(4)
  by simp

section \<open>Colour strings and the batch loop\<close>

lemma digit_value_facts:
  assumes "digit_value c = Some d"
  shows "d < 16" "\<not> is_space c" "c \<noteq> CHR ''+''" "c \<noteq> CHR ''-''" "c \<noteq> CHR ''_''"
    "c \<noteq> CHR ''x''" "c \<noteq> CHR ''X''" "c \<noteq> CHR ''#''"
  using assms
  by (auto simp add: digit_value_def is_space_def Let_def split: if_splits)

lemma int16_two_digits:
  assumes a: "digit_value a = Some da" and b: "digit_value b = Some db"
  shows "int16 [a, b] = Inr (int (da * 16 + db))"
  using digit_value_facts[OF a] digit_value_facts[OF b] a b
  by (simp add: int16_def skip_sign_def skip_prefix_def)

lemma spec_hex_digit_value: "spec_hex_digit c \<Longrightarrow> \<exists>d. digit_value c = Some d"
  by (auto simp add: spec_hex_digit_def digit_value_def)

lemma hex_to_rgb_six:
  assumes "digit_value a = Some da" "digit_value b = Some db" "digit_value c = Some dc"
    "digit_value d = Some dd" "digit_value e = Some de" "digit_value f = Some df"
  shows "hex_to_rgb [a, b, c, d, e, f] =
           Inr (int (da * 16 + db), int (dc * 16 + dd), int (de * 16 + df))"
  using digit_value_facts(8)[OF assms(1)]
  by (simp add: hex_to_rgb_def lstrip_def slice_def
      int16_two_digits[OF assms(1,2)] int16_two_digits[OF assms(3,4)]
      int16_two_digits[OF assms(5,6)])

lemma hex_to_rgb_hash: "hex_to_rgb (CHR ''#'' # s) = hex_to_rgb s"
  by (simp add: hex_to_rgb_def lstrip_def)

lemma spec_color_string_parses:
  assumes "spec_color_string h"
  shows "\<exists>r g b. hex_to_rgb h = Inr (r, g, b)
           \<and> 0 \<le> r \<and> r \<le> 255 \<and> 0 \<le> g \<and> g \<le> 255 \<and> 0 \<le> b \<and> b \<le> 255"
proof -
  define t where "t = (case h of [] \<Rightarrow> h | c # cs \<Rightarrow> if c = CHR ''#'' then cs else h)"
  have len: "length t = 6" and hx: "list_all spec_hex_digit t"
    using assms by (simp_all add: spec_color_string_def t_def Let_def)
  have same: "hex_to_rgb h = hex_to_rgb t"
    by (cases h) (simp_all add: t_def hex_to_rgb_hash)
  obtain a b c d e f where t: "t = [a, b, c, d, e, f]"
    using len by (auto simp add: length_Suc_conv eval_nat_numeral)
  have h6: "spec_hex_digit a" "spec_hex_digit b" "spec_hex_digit c" "spec_hex_digit d"
      "spec_hex_digit e" "spec_hex_digit f"
    using hx unfolding t by simp_all
  obtain da where da: "digit_value a = Some da" using spec_hex_digit_value[OF h6(1)] by blast
  obtain db where db: "digit_value b = Some db" using spec_hex_digit_value[OF h6(2)] by blast
  obtain dc where dc: "digit_value c = Some dc" using spec_hex_digit_value[OF h6(3)] by blast
  obtain dd where dd: "digit_value d = Some dd" using spec_hex_digit_value[OF h6(4)] by blast
  obtain de where de: "digit_value e = Some de" using spec_hex_digit_value[OF h6(5)] by blast
  obtain df' where df: "digit_value f = Some df'" using spec_hex_digit_value[OF h6(6)] by blast
  note dv = da db dc dd de df
  have "da < 16" "db < 16" "dc < 16" "dd < 16" "de < 16" "df' < 16"
    using dv digit_value_facts(1) by blast+
  then show ?thesis
    unfolding same t hex_to_rgb_six[OF dv] by simp
qed

lemma scan_digits_bound:
  "scan_digits s prev acc n = Some (rest, v, k) \<Longrightarrow> v + 1 \<le> (acc + 1) * 16 ^ length s"
proof (induction s arbitrary: prev acc n)
  case Nil
  then show ?case by (simp split: if_splits)
next
  case (Cons c cs)
  show ?case
  proof (cases "c = CHR ''_''")
    case True
    then have "scan_digits cs c acc n = Some (rest, v, k)"
      using Cons.prems by (simp split: if_splits)
    then have "v + 1 \<le> (acc + 1) * 16 ^ length cs" by (rule Cons.IH)
    also have "\<dots> \<le> (acc + 1) * 16 ^ length (c # cs)" by simp
    finally show ?thesis .
  next
    case False
    show ?thesis
    proof (cases "digit_value c")
      case None
      then have "v = acc" using Cons.prems False by (simp split: if_splits)
      moreover have "(acc + 1) * 1 \<le> (acc + 1) * 16 ^ length (c # cs)"
        by (rule mult_le_mono2) simp
      ultimately show ?thesis by simp
    next
      case (Some d)
      then have "scan_digits cs c (acc * 16 + d) (n + 1) = Some (rest, v, k)"
        using Cons.prems False by simp
      then have "v + 1 \<le> (acc * 16 + d + 1) * 16 ^ length cs" by (rule Cons.IH)
      also have "acc * 16 + d + 1 \<le> (acc + 1) * 16"
        using digit_value_facts(1)[OF Some] by simp
      finally show ?thesis by (simp add: algebra_simps)
    qed
  qed
qed

lemma skip_sign_facts:
  "skip_sign s = (sg, t) \<Longrightarrow> length t \<le> length s \<and> \<bar>sg\<bar> = 1"
  by (cases s) (auto simp add: skip_sign_def split: if_splits)

lemma skip_prefix_length: "length (skip_prefix s) \<le> length s"
  by (auto simp add: skip_prefix_def split: list.splits)

lemma int16_bound:
  assumes "int16 s = Inr v" and "length s \<le> 2"
  shows "\<bar>v\<bar> \<le> 255"
proof -
  obtain sg s2 where ss: "skip_sign (dropWhile is_space s) = (sg, s2)"
    by (cases "skip_sign (dropWhile is_space s)")
  have l2: "length s2 \<le> length s"
    using skip_sign_facts[OF ss] length_dropWhile_le[of is_space s] by linarith
  have l3: "length (skip_prefix s2) \<le> 2"
    using skip_prefix_length[of s2] l2 assms(2) by linarith
  obtain c cs where p: "skip_prefix s2 = c # cs"
    using assms(1) ss by (cases "skip_prefix s2") (simp_all add: int16_def)
  obtain rest w k where sc: "scan_digits (c # cs) (CHR 0x00) 0 0 = Some (rest, w, k)"
    and v: "v = sg * int w"
    using assms(1) ss p
    by (auto simp add: int16_def split: if_splits option.splits)
  have "w + 1 \<le> (0 + 1) * 16 ^ length (c # cs)" using sc by (rule scan_digits_bound)
  then have "w + 1 \<le> 16 ^ length (c # cs)" by simp
  also have "(16::nat) ^ length (c # cs) \<le> 16 ^ 2"
    using l3 unfolding p by (intro power_increasing) simp_all
  finally have "w \<le> 255" by simp
  then show ?thesis using skip_sign_facts[OF ss] v by (simp add: abs_mult)
qed

lemma slice_length:
  "length (slice 0 2 s) \<le> 2" "length (slice 2 4 s) \<le> 2" "length (slice 4 6 s) \<le> 2"
  by (simp_all add: slice_def)

lemma hex_to_rgb_small:
  assumes "hex_to_rgb h = Inr rgb"
  shows "small_color rgb"
proof -
  let ?t = "lstrip (CHR ''#'') h"
  obtain r where r: "int16 (slice 0 2 ?t) = Inr r"
    using assms by (cases "int16 (slice 0 2 ?t)") (simp_all add: hex_to_rgb_def Let_def)
  obtain g where g: "int16 (slice 2 4 ?t) = Inr g"
    using assms r by (cases "int16 (slice 2 4 ?t)") (simp_all add: hex_to_rgb_def Let_def)
  obtain b where b: "int16 (slice 4 6 ?t) = Inr b"
    using assms r g by (cases "int16 (slice 4 6 ?t)") (simp_all add: hex_to_rgb_def Let_def)
  have rgb: "rgb = (r, g, b)" using assms r g b by (simp add: hex_to_rgb_def Let_def)
  have "\<bar>r\<bar> \<le> 255" by (rule int16_bound[OF r slice_length(1)])
  moreover have "\<bar>g\<bar> \<le> 255" by (rule int16_bound[OF g slice_length(2)])
  moreover have "\<bar>b\<bar> \<le> 255" by (rule int16_bound[OF b slice_length(3)])
  ultimately show ?thesis by (simp add: rgb small_color_def)
qed

lemma int16_empty: "int16 [] = Inl ValueError"
  by (simp add: int16_def skip_sign_def skip_prefix_def)

lemma int16_error: "int16 s = Inl e \<Longrightarrow> e = ValueError"
  by (auto simp add: int16_def split: prod.splits list.splits if_splits option.splits)

lemma hex_to_rgb_error: "hex_to_rgb h = Inl e \<Longrightarrow> e = ValueError"
  by (auto simp add: hex_to_rgb_def Let_def ebind_def split: sum.splits dest: int16_error)

lemma hex_to_rgb_short:
  assumes "length (lstrip (CHR ''#'') h) < 5"
  shows "hex_to_rgb h = Inl ValueError"
proof -
  have e: "slice 4 6 (lstrip (CHR ''#'') h) = []" using assms by (simp add: slice_def)
  have "\<exists>err. hex_to_rgb h = Inl err"
    by (simp add: hex_to_rgb_def Let_def e int16_empty ebind_def split: sum.splits)
  then show ?thesis using hex_to_rgb_error by blast
qed

lemma same_products_refl: "same_products s s"
  by (simp add: same_products_def)

lemma process_entry_same:
  "same_products s t \<Longrightarrow> same_products (process_entry e s) (process_entry e t)"
  by (simp add: same_products_def process_entry_def Let_def split: option.splits sum.splits)

lemma main_loop_same:
  "same_products s t \<Longrightarrow> same_products (main_loop es s) (main_loop es t)"
  unfolding main_loop_def
  by (induction es arbitrary: s t) (simp_all add: process_entry_same)

lemma process_entry_rejected:
  assumes "hex_to_rgb h = Inl err"
  shows "same_products (process_entry \<lparr>item_id = i, hex_color = Some h\<rparr> st) st"
  using assms by (simp add: same_products_def process_entry_def split: option.splits)

lemma main_loop_skips:
  assumes "hex_to_rgb h = Inl err"
  shows "same_products (main_loop (pre @ \<lparr>item_id = i, hex_color = Some h\<rparr> # post) st)
           (main_loop (pre @ post) st)"
proof -
  have "main_loop (pre @ \<lparr>item_id = i, hex_color = Some h\<rparr> # post) st
        = main_loop post (process_entry \<lparr>item_id = i, hex_color = Some h\<rparr> (main_loop pre st))"
    by (simp add: main_loop_def)
  moreover have "main_loop (pre @ post) st = main_loop post (main_loop pre st)"
    by (simp add: main_loop_def)
  ultimately show ?thesis
    using main_loop_same[OF process_entry_rejected[OF assms]] by simp
qed

lemma hex_to_rgb_nonempty: "hex_to_rgb h = Inr rgb \<Longrightarrow> h \<noteq> []"
  using hex_to_rgb_short[of "[]"] by (auto simp add: lstrip_def)

lemma process_entry_parsed:
  assumes "hex_to_rgb h = Inr rgb"
  shows "generate_sphere rgb = Inr (rendered rgb)
       \<and> count (process_entry \<lparr>item_id = Some i, hex_color = Some h\<rparr> st) = count st + 1
       \<and> files (process_entry \<lparr>item_id = Some i, hex_color = Some h\<rparr> st) i
           = Some (rendered rgb)"
  using assms hex_to_rgb_nonempty[OF assms] generate_sphere_rendered[OF hex_to_rgb_small[OF assms]]
  by (simp add: process_entry_def Let_def)

text \<open>
  C5 as stated fails.  The claim lets a string parse only when, after an optional
  \<open>#\<close>, it is exactly six hexadecimal digits, and has every other string rejected.
  The five-digit string \<open>FFFFF\<close> is not of that form, yet \<open>hex_to_rgb\<close> returns
  \<open>(255, 255, 15)\<close> for it (the third slice is the single digit \<open>F\<close>), and its
  entry is rendered and counted.
\<close>

theorem C5_six_digits_counterexample:
  "hex_to_rgb ''FFFFF'' = Inr (255, 255, 15) \<and> \<not> spec_color_string ''FFFFF''
   \<and> count (main [\<lparr>item_id = Some 1, hex_color = Some ''FFFFF''\<rparr>]) = 1"
proof -
  have h: "hex_to_rgb ''FFFFF'' = Inr (255, 255, 15)" by code_simp
  have "\<not> spec_color_string ''FFFFF''" by (simp add: spec_color_string_def)
  moreover have "count (main [\<lparr>item_id = Some 1, hex_color = Some ''FFFFF''\<rparr>]) = 1"
    using process_entry_parsed[OF h, of 1 "\<lparr>count = 0, files = Map.empty, printed = []\<rparr>"]
    by (simp add: main_def main_loop_def)
  ultimately show ?thesis using h by simp
qed

text \<open>
  C5, amended.  Every colour string that, after an optional leading \<open>#\<close>, consists of
  exactly six hexadecimal digits parses to three byte values.  Whatever string parses
  yields three integers of magnitude at most 255, and its entry is rendered, counted and
  written under its identifier.  Every string with fewer than five characters after its
  leading \<open>#\<close>s raises ValueError, and an entry whose string raises is skipped: the
  counter and the files are those of the run without that entry, the entries before and
  after it being processed all the same.
\<close>

theorem C5_color_strings:
  "(spec_color_string h \<longrightarrow>
      (\<exists>r g b. hex_to_rgb h = Inr (r, g, b)
         \<and> 0 \<le> r \<and> r \<le> 255 \<and> 0 \<le> g \<and> g \<le> 255 \<and> 0 \<le> b \<and> b \<le> 255))
   \<and> (hex_to_rgb h = Inr rgb \<longrightarrow>
        small_color rgb
        \<and> (\<exists>img. generate_sphere rgb = Inr img
              \<and> count (process_entry \<lparr>item_id = Some i, hex_color = Some h\<rparr> st) = count st + 1
              \<and> files (process_entry \<lparr>item_id = Some i, hex_color = Some h\<rparr> st) i = Some img))
   \<and> (length (lstrip (CHR ''#'') h) < 5 \<longrightarrow> hex_to_rgb h = Inl ValueError)
   \<and> (hex_to_rgb h = Inl err \<longrightarrow>
        same_products (main_loop (pre @ \<lparr>item_id = Some i, hex_color = Some h\<rparr> # post) st)
          (main_loop (pre @ post) st))"
  using spec_color_string_parses[of h] hex_to_rgb_small[of h rgb]
    process_entry_parsed[of h rgb i st] hex_to_rgb_short[of h]
    main_loop_skips[of h err pre "Some i" post st]
  by (simp del: split_paired_Ex)

lemma sample_strings:
  "spec_color_string ''#FF6B35''" "hex_to_rgb ''#FF6B35'' = Inr (255, 107, 53)"
  "length (lstrip (CHR ''#'') ''#FFFF'') < 5" "hex_to_rgb ''#FFFF'' = Inl ValueError"
proof -
  show "spec_color_string ''#FF6B35''" by (simp add: spec_color_string_def spec_hex_digit_def)
  show "hex_to_rgb ''#FF6B35'' = Inr (255, 107, 53)" by code_simp
  show "length (lstrip (CHR ''#'') ''#FFFF'') < 5" by (simp add: lstrip_def)
  show "hex_to_rgb ''#FFFF'' = Inl ValueError" by code_simp
qed

theorem C5_color_strings_witness:
  "(\<exists>r g b. hex_to_rgb ''#FF6B35'' = Inr (r, g, b)
         \<and> 0 \<le> r \<and> r \<le> 255 \<and> 0 \<le> g \<and> g \<le> 255 \<and> 0 \<le> b \<and> b \<le> 255)
   \<and> small_color (255, 107, 53)
   \<and> (\<exists>img. generate_sphere (255, 107, 53) = Inr img
         \<and> count (process_entry \<lparr>item_id = Some 7, hex_color = Some ''#FF6B35''\<rparr>
                    \<lparr>count = 0, files = Map.empty, printed = []\<rparr>) = 0 + 1
         \<and> files (process_entry \<lparr>item_id = Some 7, hex_color = Some ''#FF6B35''\<rparr>
                    \<lparr>count = 0, files = Map.empty, printed = []\<rparr>) 7 = Some img)
   \<and> hex_to_rgb ''#FFFF'' = Inl ValueError
   \<and> same_products
        (main_loop ([\<lparr>item_id = Some 7, hex_color = Some ''#FF6B35''\<rparr>]
                     @ \<lparr>item_id = Some 8, hex_color = Some ''#FFFF''\<rparr>
                     # [\<lparr>item_id = Some 9, hex_color = Some ''#FF6B35''\<rparr>])
           \<lparr>count = 0, files = Map.empty, printed = []\<rparr>)
        (main_loop ([\<lparr>item_id = Some 7, hex_color = Some ''#FF6B35''\<rparr>]
                     @ [\<lparr>item_id = Some 9, hex_color = Some ''#FF6B35''\<rparr>])
           \<lparr>count = 0, files = Map.empty, printed = []\<rparr>)"
  using C5_color_strings[of "''#FF6B35''" "(255, 107, 53)" 7
      "\<lparr>count = 0, files = Map.empty, printed = []\<rparr>" ValueError "[]" "[]"]
    C5_color_strings[of "''#FFFF''" "(0, 0, 0)" 8
      "\<lparr>count = 0, files = Map.empty, printed = []\<rparr>" ValueError
      "[\<lparr>item_id = Some 7, hex_color = Some ''#FF6B35''\<rparr>]"
      "[\<lparr>item_id = Some 9, hex_color = Some ''#FF6B35''\<rparr>]"]
    sample_strings
  by (simp del: split_paired_Ex)

section \<open>Which pixels are written\<close>

lemma dist_sq_half:
  "dist_sq x y
     = real_of_int (int x * int x - 127 * int x + int y * int y - 127 * int y + 8064) + 1 / 2"
  by (simp add: dist_sq_def CENTER_def algebra_simps)

lemma on_sphere_margin:
  assumes "on_sphere x y"
  shows "dist_sq x y \<le> 7199 / 2"
proof -
  let ?n = "int x * int x - 127 * int x + int y * int y - 127 * int y + 8064"
  have "real_of_int ?n + 1 / 2 \<le> 3600"
    using assms unfolding on_sphere_def dist_sq_half by (simp add: RADIUS_def)
  then have "real_of_int ?n < real_of_int 3600" by simp
  then have "?n < 3600" by (simp only: of_int_less_iff)
  then have "?n \<le> 3599" by simp
  then have "real_of_int ?n \<le> real_of_int 3599" by (simp only: of_int_le_iff)
  then show ?thesis unfolding dist_sq_half by simp
qed

lemma alpha_at_positive:
  assumes "on_sphere x y"
  shows "1 \<le> alpha_at x y"
proof (cases "edge_dist_at x y < 1")
  case True
  have "sqrt (dist_sq x y) \<le> sqrt (7199 / 2)"
    using on_sphere_margin[OF assms] by simp
  also have "sqrt (7199 / 2) \<le> 60 - 1 / 255"
    by (rule real_le_lsqrt) (simp_all add: power2_eq_square)
  finally have "1 \<le> 255 * edge_dist_at x y"
    by (simp add: edge_dist_at_def RADIUS_def)
  then have "1 \<le> \<lfloor>255 * edge_dist_at x y\<rfloor>" by (simp add: le_floor_iff)
  then show ?thesis
    using True edge_dist_nonneg[OF assms] by (simp add: alpha_at_def trunc_def)
next
  case False
  then show ?thesis by (simp add: alpha_at_def)
qed

lemma lit_pixel_spec:
  assumes "on_sphere x y"
  shows "lit_pixel rgb x y = spec_shading rgb x y"
  by (cases rgb)
    (simp add: lit_pixel_def spec_shading_def spec_channel_eq alpha_at_floor[OF assms])

text \<open>
  C2.  For every coordinate of the image and every base colour, the loop body reaches its
  write to \<open>pixels[x, y]\<close> exactly for the pixels whose planar distance from the centre
  is at most 60.  What it writes there, and what the returned buffer then holds, is the
  computed shading: the three channels of the colour composition and the edge alpha.
  That alpha is at least 1, so a written pixel is never the transparent fill.  A pixel
  whose planar distance exceeds 60 is skipped and has alpha 0 in the returned buffer.
\<close>

theorem C2_on_sphere_written:
  assumes "valid_color rgb" and "x < IMG_SIZE" and "y < IMG_SIZE"
  shows "(spec_planar_distance x y \<le> 60 \<longrightarrow>
            shade_pixel rgb x y = Inr (Some (spec_shading rgb x y))
            \<and> render_pixel rgb x y = Inr (spec_shading rgb x y)
            \<and> 1 \<le> alpha (spec_shading rgb x y)
            \<and> render_pixel rgb x y \<noteq> Inr (0, 0, 0, 0))
       \<and> (60 < spec_planar_distance x y \<longrightarrow>
            shade_pixel rgb x y = Inr None
            \<and> (\<exists>p. render_pixel rgb x y = Inr p \<and> alpha p = 0))"
proof (cases "on_sphere x y")
  case True
  note s = valid_small[OF assms(1)]
  have a: "shade_pixel rgb x y = Inr (Some (spec_shading rgb x y))"
    using shade_pixel_on[OF True s] by (simp add: lit_pixel_spec[OF True])
  have b: "render_pixel rgb x y = Inr (spec_shading rgb x y)"
    using render_pixel_eq[OF s assms(2,3)] True by (simp add: lit_pixel_spec[OF True])
  have "alpha (lit_pixel rgb x y) = alpha_at x y"
    by (cases rgb) (simp add: lit_pixel_def alpha_def)
  then have c: "1 \<le> alpha (spec_shading rgb x y)"
    using alpha_at_positive[OF True] by (simp add: lit_pixel_spec[OF True])
  have d: "render_pixel rgb x y \<noteq> Inr (0, 0, 0, 0)"
  proof
    assume "render_pixel rgb x y = Inr (0, 0, 0, 0)"
    then have "spec_shading rgb x y = (0, 0, 0, 0)" using b by simp
    then show False using c by (simp add: alpha_def)
  qed
  show ?thesis using True a b c d by (simp add: on_sphere_iff)
next
  case False
  then show ?thesis
    using render_pixel_eq[OF valid_small[OF assms(1)] assms(2,3)] shade_pixel_off[OF False]
    by (simp add: on_sphere_iff alpha_def)
qed

theorem C2_on_sphere_written_witness:
  "shade_pixel (255, 107, 53) 64 64 = Inr (Some (spec_shading (255, 107, 53) 64 64))
   \<and> render_pixel (255, 107, 53) 64 64 = Inr (spec_shading (255, 107, 53) 64 64)
   \<and> 1 \<le> alpha (spec_shading (255, 107, 53) 64 64)
   \<and> render_pixel (255, 107, 53) 64 64 \<noteq> Inr (0, 0, 0, 0)
   \<and> shade_pixel (255, 107, 53) 5 5 = Inr None
   \<and> (\<exists>p. render_pixel (255, 107, 53) 5 5 = Inr p \<and> alpha p = 0)"
proof -
  have a: "shade_pixel (255, 107, 53) 64 64 = Inr (Some (spec_shading (255, 107, 53) 64 64))
       \<and> render_pixel (255, 107, 53) 64 64 = Inr (spec_shading (255, 107, 53) 64 64)
       \<and> 1 \<le> alpha (spec_shading (255, 107, 53) 64 64)
       \<and> render_pixel (255, 107, 53) 64 64 \<noteq> Inr (0, 0, 0, 0)"
    using C2_on_sphere_written[OF demo_color_valid size_facts(1) size_facts(1)] center_pixel_on
    by blast
  have b: "shade_pixel (255, 107, 53) 5 5 = Inr None
       \<and> (\<exists>p. render_pixel (255, 107, 53) 5 5 = Inr p \<and> alpha p = 0)"
    using C2_on_sphere_written[OF demo_color_valid size_facts(2) size_facts(2)] corner_pixel_off
    by blast
  show ?thesis using a b by blast
qed

end
